theory Spec2Isabelle
  imports Complex_Main "HOL-Library.AList" "HOL-Library.Log_Nat"
begin

section \<open>JavaScript numbers\<close>

text \<open>
  The amounts, limits and sums of \<^verbatim>\<open>src/App.tsx\<close> are JavaScript numbers. A number is
  modelled as an exact rational, or one of the three special values a computation of the
  program can produce: \<open>parseFloat "Infinity"\<close> is \<open>PosInf\<close>, \<open>parseFloat "abc"\<close> is
  \<open>NaN\<close>. The operations of this section give the exact result of each step; section
  \<open>Double precision\<close> rounds every result to the nearest IEEE 754 double, as the program
  does. The sign of zero is not modelled.
\<close>

datatype jsnum = Num rat | PosInf | NegInf | NaN

fun isNaN :: "jsnum \<Rightarrow> bool" where
  "isNaN NaN = True"
| "isNaN _ = False"

fun isFinite :: "jsnum \<Rightarrow> bool" where
  "isFinite (Num _) = True"
| "isFinite _ = False"

text \<open>\<open>a + b\<close>\<close>

fun jadd :: "jsnum \<Rightarrow> jsnum \<Rightarrow> jsnum" where
  "jadd (Num a) (Num b) = Num (a + b)"
| "jadd NaN _ = NaN"
| "jadd _ NaN = NaN"
| "jadd PosInf NegInf = NaN"
| "jadd NegInf PosInf = NaN"
| "jadd PosInf _ = PosInf"
| "jadd _ PosInf = PosInf"
| "jadd NegInf _ = NegInf"
| "jadd _ NegInf = NegInf"

text \<open>\<open>-a\<close> and \<open>a - b\<close>\<close>

fun jneg :: "jsnum \<Rightarrow> jsnum" where
  "jneg (Num a) = Num (- a)"
| "jneg PosInf = NegInf"
| "jneg NegInf = PosInf"
| "jneg NaN = NaN"

definition jsub :: "jsnum \<Rightarrow> jsnum \<Rightarrow> jsnum" where
  "jsub a b = jadd a (jneg b)"

text \<open>\<open>a * b\<close>: infinity times zero is \<open>NaN\<close>.\<close>

fun jmul :: "jsnum \<Rightarrow> jsnum \<Rightarrow> jsnum" where
  "jmul (Num a) (Num b) = Num (a * b)"
| "jmul NaN _ = NaN"
| "jmul _ NaN = NaN"
| "jmul PosInf (Num b) = (if b = 0 then NaN else if 0 < b then PosInf else NegInf)"
| "jmul NegInf (Num b) = (if b = 0 then NaN else if 0 < b then NegInf else PosInf)"
| "jmul (Num a) PosInf = (if a = 0 then NaN else if 0 < a then PosInf else NegInf)"
| "jmul (Num a) NegInf = (if a = 0 then NaN else if 0 < a then NegInf else PosInf)"
| "jmul PosInf PosInf = PosInf"
| "jmul NegInf NegInf = PosInf"
| "jmul PosInf NegInf = NegInf"
| "jmul NegInf PosInf = NegInf"

text \<open>
  \<open>a / b\<close>: a finite number over zero is an infinity (zero over zero is \<open>NaN\<close>), a finite
  number over an infinity is zero, an infinity over an infinity is \<open>NaN\<close>. The zero of
  the model is the positive one.
\<close>

fun jdiv :: "jsnum \<Rightarrow> jsnum \<Rightarrow> jsnum" where
  "jdiv (Num a) (Num b) =
     (if b = 0 then (if a = 0 then NaN else if 0 < a then PosInf else NegInf)
      else Num (a / b))"
| "jdiv NaN _ = NaN"
| "jdiv _ NaN = NaN"
| "jdiv (Num a) _ = Num 0"
| "jdiv PosInf (Num b) = (if 0 \<le> b then PosInf else NegInf)"
| "jdiv NegInf (Num b) = (if 0 \<le> b then NegInf else PosInf)"
| "jdiv _ _ = NaN"

text \<open>\<open>a < b\<close>, \<open>a > b\<close>, \<open>a <= b\<close>, \<open>a >= b\<close>: every comparison with \<open>NaN\<close> is false.\<close>

fun jlt :: "jsnum \<Rightarrow> jsnum \<Rightarrow> bool" where
  "jlt (Num a) (Num b) = (a < b)"
| "jlt NaN _ = False"
| "jlt _ NaN = False"
| "jlt _ NegInf = False"
| "jlt PosInf _ = False"
| "jlt NegInf _ = True"
| "jlt _ PosInf = True"

definition jgt :: "jsnum \<Rightarrow> jsnum \<Rightarrow> bool" where
  "jgt a b = jlt b a"

definition jle :: "jsnum \<Rightarrow> jsnum \<Rightarrow> bool" where
  "jle a b = (\<not> isNaN a \<and> \<not> isNaN b \<and> \<not> jlt b a)"

definition jge :: "jsnum \<Rightarrow> jsnum \<Rightarrow> bool" where
  "jge a b = jle b a"

text \<open>\<open>Math.max(a, b)\<close>: \<open>NaN\<close> when an argument is \<open>NaN\<close>.\<close>

definition Math_max :: "jsnum \<Rightarrow> jsnum \<Rightarrow> jsnum" where
  "Math_max a b = (if isNaN a \<or> isNaN b then NaN else if jlt a b then b else a)"

text \<open>\<open>a || 0\<close> on a number or \<open>undefined\<close>: zero and \<open>NaN\<close> are falsy, as \<open>undefined\<close> is.\<close>

fun or_zero :: "jsnum option \<Rightarrow> jsnum" where
  "or_zero None = Num 0"
| "or_zero (Some (Num a)) = (if a = 0 then Num 0 else Num a)"
| "or_zero (Some NaN) = Num 0"
| "or_zero (Some v) = v"

section \<open>Dates\<close>

text \<open>
  A JavaScript \<open>Date\<close> holds a time value, the milliseconds since 1970-01-01T00:00:00Z,
  or is an Invalid Date. The functions below are those of the ECMAScript specification
  (section "Date Objects"), on integers.
\<close>

datatype jsdate = TimeValue int | InvalidDate

definition msPerDay :: int where
  "msPerDay = 86400000"

definition Day :: "int \<Rightarrow> int" where
  "Day t = t div msPerDay"

definition TimeWithinDay :: "int \<Rightarrow> int" where
  "TimeWithinDay t = t mod msPerDay"

definition DayFromYear :: "int \<Rightarrow> int" where
  "DayFromYear y =
     365 * (y - 1970) + (y - 1969) div 4 - (y - 1901) div 100 + (y - 1601) div 400"

definition isLeapYear :: "int \<Rightarrow> bool" where
  "isLeapYear y = (y mod 4 = 0 \<and> (y mod 100 \<noteq> 0 \<or> y mod 400 = 0))"

definition DaysInYear :: "int \<Rightarrow> int" where
  "DaysInYear y = (if isLeapYear y then 366 else 365)"

text \<open>
  \<open>YearFromTime(t)\<close> is the largest year that starts at or before \<open>t\<close>. It is computed
  from an estimate that is wrong by one year at most (lemma \<open>YearFromDay_bounds\<close>).
\<close>

definition YearFromDay :: "int \<Rightarrow> int" where
  "YearFromDay d =
     (let y = 1970 + (400 * d) div 146097
      in if d < DayFromYear y then y - 1
         else if DayFromYear (y + 1) \<le> d then y + 1
         else y)"

definition YearFromTime :: "int \<Rightarrow> int" where
  "YearFromTime t = YearFromDay (Day t)"

definition DayWithinYear :: "int \<Rightarrow> int" where
  "DayWithinYear t = Day t - DayFromYear (YearFromTime t)"

definition InLeapYear :: "int \<Rightarrow> bool" where
  "InLeapYear t = isLeapYear (YearFromTime t)"

text \<open>The number of the first day of month \<open>m\<close> (0 is January) within its year.\<close>

definition monthStart :: "bool \<Rightarrow> int \<Rightarrow> int" where
  "monthStart leap m =
     (if m = 0 then 0 else if m = 1 then 31
      else (if leap then 1 else 0) +
        (if m = 2 then 59 else if m = 3 then 90 else if m = 4 then 120
         else if m = 5 then 151 else if m = 6 then 181 else if m = 7 then 212
         else if m = 8 then 243 else if m = 9 then 273 else if m = 10 then 304
         else if m = 11 then 334 else 365))"

definition monthOfDay :: "bool \<Rightarrow> int \<Rightarrow> int" where
  "monthOfDay leap d =
     (let l = (if leap then 1 else 0)
      in if d < 31 then 0 else if d < 59 + l then 1 else if d < 90 + l then 2
         else if d < 120 + l then 3 else if d < 151 + l then 4 else if d < 181 + l then 5
         else if d < 212 + l then 6 else if d < 243 + l then 7 else if d < 273 + l then 8
         else if d < 304 + l then 9 else if d < 334 + l then 10 else 11)"

definition MonthFromTime :: "int \<Rightarrow> int" where
  "MonthFromTime t = monthOfDay (InLeapYear t) (DayWithinYear t)"

definition DateFromTime :: "int \<Rightarrow> int" where
  "DateFromTime t = DayWithinYear t - monthStart (InLeapYear t) (MonthFromTime t) + 1"

definition WeekDay :: "int \<Rightarrow> int" where
  "WeekDay t = (Day t + 4) mod 7"

definition HourFromTime :: "int \<Rightarrow> int" where
  "HourFromTime t = (t div 3600000) mod 24"

definition MinFromTime :: "int \<Rightarrow> int" where
  "MinFromTime t = (t div 60000) mod 60"

definition SecFromTime :: "int \<Rightarrow> int" where
  "SecFromTime t = (t div 1000) mod 60"

definition msFromTime :: "int \<Rightarrow> int" where
  "msFromTime t = t mod 1000"

definition MakeTime :: "int \<Rightarrow> int \<Rightarrow> int \<Rightarrow> int \<Rightarrow> int" where
  "MakeTime h m s ms = h * 3600000 + m * 60000 + s * 1000 + ms"

definition MakeDay :: "int \<Rightarrow> int \<Rightarrow> int \<Rightarrow> int" where
  "MakeDay year month dt =
     (let ym = year + month div 12; mn = month mod 12
      in DayFromYear ym + monthStart (isLeapYear ym) mn + dt - 1)"

definition MakeDate :: "int \<Rightarrow> int \<Rightarrow> int" where
  "MakeDate day time = day * msPerDay + time"

definition validTime :: "int \<Rightarrow> bool" where
  "validTime t = (\<bar>t\<bar> \<le> 8640000000000000)"

definition TimeClip :: "int \<Rightarrow> jsdate" where
  "TimeClip t = (if validTime t then TimeValue t else InvalidDate)"

text \<open>\<open>date.valueOf()\<close>, which the comparisons \<open>a >= b\<close> and \<open>a <= b\<close> of two dates use.\<close>

fun valueOf :: "jsdate \<Rightarrow> jsnum" where
  "valueOf (TimeValue t) = Num (of_int t)"
| "valueOf InvalidDate = NaN"

subsection \<open>ISO 8601 strings\<close>

text \<open>The decimal digits are the characters 48 to 57.\<close>

definition digit_char :: "nat \<Rightarrow> char" where
  "digit_char n = char_of (48 + n)"

definition digit_val :: "char \<Rightarrow> nat option" where
  "digit_val c =
     (let k = of_char c :: nat in if 48 \<le> k \<and> k \<le> 57 then Some (k - 48) else None)"

text \<open>\<open>pad w n\<close>: the last \<open>w\<close> decimal digits of \<open>n\<close>, zero-padded.\<close>

fun pad :: "nat \<Rightarrow> nat \<Rightarrow> string" where
  "pad 0 n = []"
| "pad (Suc w) n = pad w (n div 10) @ [digit_char (n mod 10)]"

fun read_digits :: "nat \<Rightarrow> string \<Rightarrow> nat option" where
  "read_digits acc [] = Some acc"
| "read_digits acc (c # cs) =
     (case digit_val c of None \<Rightarrow> None | Some d \<Rightarrow> read_digits (10 * acc + d) cs)"

text \<open>\<open>take_num w s\<close> reads a field of exactly \<open>w\<close> digits; \<open>expect c s\<close> reads the character \<open>c\<close>.\<close>

definition take_num :: "nat \<Rightarrow> string \<Rightarrow> (nat \<times> string) option" where
  "take_num w s =
     (if length s < w then None
      else case read_digits 0 (take w s) of
             None \<Rightarrow> None
           | Some n \<Rightarrow> Some (n, drop w s))"

fun expect :: "char \<Rightarrow> string \<Rightarrow> string option" where
  "expect c [] = None"
| "expect c (x # xs) = (if x = c then Some xs else None)"

text \<open>
  \<open>Date.prototype.toISOString\<close>: \<open>YYYY-MM-DDTHH:mm:ss.sssZ\<close>, the year as \<open>+YYYYYY\<close> or
  \<open>-YYYYYY\<close> outside 0 to 9999. An Invalid Date throws a \<open>RangeError\<close>.
\<close>

datatype js_error = RangeError

definition yearString :: "int \<Rightarrow> string" where
  "yearString y =
     (if 0 \<le> y \<and> y \<le> 9999 then pad 4 (nat y)
      else (if y < 0 then ''-'' else ''+'') @ pad 6 (nat \<bar>y\<bar>))"

definition isoString :: "int \<Rightarrow> string" where
  "isoString t =
     yearString (YearFromTime t) @ ''-'' @ pad 2 (nat (MonthFromTime t + 1)) @ ''-'' @
     pad 2 (nat (DateFromTime t)) @ ''T'' @ pad 2 (nat (HourFromTime t)) @ '':'' @
     pad 2 (nat (MinFromTime t)) @ '':'' @ pad 2 (nat (SecFromTime t)) @ ''.'' @
     pad 3 (nat (msFromTime t)) @ ''Z''"

fun toISOString :: "jsdate \<Rightarrow> js_error + string" where
  "toISOString (TimeValue t) = Inr (isoString t)"
| "toISOString InvalidDate = Inl RangeError"

text \<open>
  \<open>new Date(s)\<close> on a string, that is \<open>Date.parse\<close>, for the format above: the complete
  date-time form with the \<open>Z\<close> offset and a four-digit or a signed six-digit year. A
  field out of its range (month 13, February 30, hour 25, the year \<open>-000000\<close>) gives an
  Invalid Date. What \<open>Date.parse\<close> makes of any other string is left to the
  implementation by ECMAScript; the model answers Invalid Date there.
\<close>

definition parseYear :: "string \<Rightarrow> (int \<times> string) option" where
  "parseYear s =
     (case s of
        [] \<Rightarrow> None
      | c # r \<Rightarrow>
          if c = CHR ''+'' then map_option (\<lambda>(n, r'). (int n, r')) (take_num 6 r)
          else if c = CHR ''-'' then
            (case take_num 6 r of
               None \<Rightarrow> None
             | Some (n, r') \<Rightarrow> if n = 0 then None else Some (- int n, r'))
          else map_option (\<lambda>(n, r'). (int n, r')) (take_num 4 s))"

definition DaysInMonth :: "int \<Rightarrow> int \<Rightarrow> int" where
  "DaysInMonth y m = monthStart (isLeapYear y) (m + 1) - monthStart (isLeapYear y) m"

definition dateFromFields :: "int \<Rightarrow> nat \<Rightarrow> nat \<Rightarrow> nat \<Rightarrow> nat \<Rightarrow> nat \<Rightarrow> nat \<Rightarrow> jsdate" where
  "dateFromFields y mo d h mi s ms =
     (if 1 \<le> mo \<and> mo \<le> 12 \<and> 1 \<le> d \<and> int d \<le> DaysInMonth y (int mo - 1)
         \<and> (h < 24 \<or> h = 24 \<and> mi = 0 \<and> s = 0 \<and> ms = 0) \<and> mi \<le> 59 \<and> s \<le> 59
      then TimeClip (MakeDate (MakeDay y (int mo - 1) (int d))
                              (MakeTime (int h) (int mi) (int s) (int ms)))
      else InvalidDate)"

definition parseFields :: "string \<Rightarrow> (int \<times> nat \<times> nat \<times> nat \<times> nat \<times> nat \<times> nat) option" where
  "parseFields s0 =
     Option.bind (parseYear s0) (\<lambda>(y, s1).
     Option.bind (expect CHR ''-'' s1) (\<lambda>s2.
     Option.bind (take_num 2 s2) (\<lambda>(mo, s3).
     Option.bind (expect CHR ''-'' s3) (\<lambda>s4.
     Option.bind (take_num 2 s4) (\<lambda>(d, s5).
     Option.bind (expect CHR ''T'' s5) (\<lambda>s6.
     Option.bind (take_num 2 s6) (\<lambda>(h, s7).
     Option.bind (expect CHR '':'' s7) (\<lambda>s8.
     Option.bind (take_num 2 s8) (\<lambda>(mi, s9).
     Option.bind (expect CHR '':'' s9) (\<lambda>s10.
     Option.bind (take_num 2 s10) (\<lambda>(s, s11).
     Option.bind (expect CHR ''.'' s11) (\<lambda>s12.
     Option.bind (take_num 3 s12) (\<lambda>(ms, s13).
       if s13 = ''Z'' then Some (y, mo, d, h, mi, s, ms) else None)))))))))))))"

definition new_Date_string :: "string \<Rightarrow> jsdate" where
  "new_Date_string s =
     (case parseFields s of
        None \<Rightarrow> InvalidDate
      | Some (y, mo, d, h, mi, s, ms) \<Rightarrow> dateFromFields y mo d h mi s ms)"

section \<open>\<open>parseFloat\<close>\<close>

text \<open>
  \<open>parseFloat(s)\<close> skips leading white space and reads the longest prefix that is a
  \<open>StrDecimalLiteral\<close>: an optional sign, then \<open>Infinity\<close> or decimal digits with an
  optional fraction and an optional exponent. With no such prefix the result is \<open>NaN\<close>.
  Text is a list of 8-bit characters here; the value of a finite literal is the exact
  decimal, where JavaScript rounds it to a double (so to an infinity beyond the largest).
\<close>

definition isWhiteSpace :: "char \<Rightarrow> bool" where
  "isWhiteSpace c = (of_char c \<in> {9, 10, 11, 12, 13, 32, 160 :: nat})"

definition isDigit :: "char \<Rightarrow> bool" where
  "isDigit c = (digit_val c \<noteq> None)"

definition digits_value :: "string \<Rightarrow> nat" where
  "digits_value ds =
     foldl (\<lambda>a c. 10 * a + (case digit_val c of None \<Rightarrow> 0 | Some d \<Rightarrow> d)) 0 ds"

text \<open>The sign before a literal or an exponent: whether it is a minus, and the rest.\<close>

fun takeSign :: "string \<Rightarrow> bool \<times> string" where
  "takeSign [] = (False, [])"
| "takeSign (c # r) =
     (if c = CHR ''-'' then (True, r) else if c = CHR ''+'' then (False, r)
      else (False, c # r))"

text \<open>The value of an \<open>ExponentPart\<close> at the head of the text, zero when there is none.\<close>

fun exponentPart :: "string \<Rightarrow> int" where
  "exponentPart [] = 0"
| "exponentPart (c # r) =
     (if c = CHR ''e'' \<or> c = CHR ''E'' then
        (let (neg, r') = takeSign r; ds = takeWhile isDigit r'
         in if ds = [] then 0
            else if neg then - int (digits_value ds) else int (digits_value ds))
      else 0)"

definition scale10 :: "rat \<Rightarrow> int \<Rightarrow> rat" where
  "scale10 m e = (if 0 \<le> e then m * 10 ^ nat e else m / 10 ^ nat (- e))"

definition parseFloat :: "string \<Rightarrow> jsnum" where
  "parseFloat s =
     (let (neg, u) = takeSign (dropWhile isWhiteSpace s)
      in if take 8 u = ''Infinity'' then (if neg then NegInf else PosInf)
         else
           let ip = takeWhile isDigit u;
               r1 = dropWhile isDigit u;
               (fp, r2) = (case r1 of
                             [] \<Rightarrow> ([], [])
                           | c # r \<Rightarrow>
                               if c = CHR ''.'' then (takeWhile isDigit r, dropWhile isDigit r)
                               else ([], r1))
           in if ip = [] \<and> fp = [] then NaN
              else
                let m = of_nat (digits_value (ip @ fp)) / 10 ^ length fp;
                    v = scale10 m (exponentPart r2)
                in Num (if neg then - v else v))"

section \<open>Domain models\<close>

datatype Category =
  Mess_Food | Metro_Auto | Mobile_WiFi | PG_Rent | Photocopy_Stationery | Social | Misc

datatype PaymentMethod = UPI | Cash | Card

text \<open>
  \<open>class Transaction\<close>. The fields are those of the class, with the prefix \<open>t_\<close>; those
  of the plain object that \<open>toJSON\<close> returns have the prefix \<open>j_\<close>, and its \<open>date\<close> is a
  string.
\<close>

record Transaction =
  t_id :: string
  t_amount :: jsnum
  t_category :: Category
  t_method :: PaymentMethod
  t_date :: jsdate
  t_note :: string

record TransactionJSON =
  j_id :: string
  j_amount :: jsnum
  j_category :: Category
  j_method :: PaymentMethod
  j_date :: string
  j_note :: string

text \<open>
  The constructor. \<open>rid\<close> is the identifier that
  \<open>Math.random().toString(36).substr(2, 9)\<close> draws and \<open>now\<close> the time value of
  \<open>new Date()\<close>; \<open>note\<close> and \<open>date\<close> are \<open>None\<close> where the call leaves them out.
\<close>

definition new_Transaction ::
  "string \<Rightarrow> int \<Rightarrow> jsnum \<Rightarrow> Category \<Rightarrow> PaymentMethod \<Rightarrow> string option \<Rightarrow> jsdate option
   \<Rightarrow> Transaction" where
  "new_Transaction rid now amount category method note date =
     \<lparr>t_id = rid, t_amount = amount, t_category = category, t_method = method,
      t_date = (case date of None \<Rightarrow> TimeValue now | Some d \<Rightarrow> d),
      t_note = (case note of None \<Rightarrow> [] | Some n \<Rightarrow> n)\<rparr>"

definition toJSON :: "Transaction \<Rightarrow> js_error + TransactionJSON" where
  "toJSON t =
     (case toISOString (t_date t) of
        Inl e \<Rightarrow> Inl e
      | Inr str \<Rightarrow>
          Inr \<lparr>j_id = t_id t, j_amount = t_amount t, j_category = t_category t,
               j_method = t_method t, j_date = str, j_note = t_note t\<rparr>)"

definition fromJSON :: "string \<Rightarrow> int \<Rightarrow> TransactionJSON \<Rightarrow> Transaction" where
  "fromJSON rid now json =
     (let t = new_Transaction rid now (j_amount json) (j_category json) (j_method json)
                (Some (j_note json)) (Some (new_Date_string (j_date json)))
      in t\<lparr>t_id := j_id json\<rparr>)"

text \<open>\<open>class Budget\<close>: the constructor's defaults are 25000 and 4000.\<close>

record Budget =
  monthlyLimit :: jsnum
  weeklyAllowance :: jsnum

definition new_Budget :: "jsnum option \<Rightarrow> jsnum option \<Rightarrow> Budget" where
  "new_Budget ml wa =
     \<lparr>monthlyLimit = (case ml of None \<Rightarrow> Num 25000 | Some v \<Rightarrow> v),
      weeklyAllowance = (case wa of None \<Rightarrow> Num 4000 | Some v \<Rightarrow> v)\<rparr>"

definition getDailyLimit :: "Budget \<Rightarrow> jsnum \<Rightarrow> jsnum \<Rightarrow> jsnum" where
  "getDailyLimit b weeklySpent daysLeft =
     (let remaining = Math_max (Num 0) (jsub (weeklyAllowance b) weeklySpent)
      in jdiv remaining (Math_max (Num 1) daysLeft))"

section \<open>The functions of date-fns\<close>

text \<open>
  \<open>startOfWeek\<close>, \<open>endOfWeek\<close>, \<open>differenceInDays\<close>, \<open>isSameDay\<close>, \<open>startOfMonth\<close> and
  \<open>endOfMonth\<close> work on the local calendar fields of a date. The model fixes the time
  zone to UTC, so the local fields are the ones above. An Invalid Date gives an Invalid
  Date (or \<open>NaN\<close>, or \<open>false\<close>).
\<close>

text \<open>\<open>date.setDate(dt); date.setHours(h, m, s, ms)\<close> on the date of time value \<open>t\<close>.\<close>

definition setDate_setHours :: "int \<Rightarrow> int \<Rightarrow> int \<Rightarrow> jsdate" where
  "setDate_setHours t dt time =
     TimeClip (MakeDate (MakeDay (YearFromTime t) (MonthFromTime t) dt) time)"

fun startOfWeek :: "jsdate \<Rightarrow> int \<Rightarrow> jsdate" where
  "startOfWeek InvalidDate weekStartsOn = InvalidDate"
| "startOfWeek (TimeValue t) weekStartsOn =
     (let day = WeekDay t;
          diff = (if day < weekStartsOn then 7 else 0) + day - weekStartsOn
      in setDate_setHours t (DateFromTime t - diff) (MakeTime 0 0 0 0))"

fun endOfWeek :: "jsdate \<Rightarrow> int \<Rightarrow> jsdate" where
  "endOfWeek InvalidDate weekStartsOn = InvalidDate"
| "endOfWeek (TimeValue t) weekStartsOn =
     (let day = WeekDay t;
          diff = (if day < weekStartsOn then - 7 else 0) + 6 - (day - weekStartsOn)
      in setDate_setHours t (DateFromTime t + diff) (MakeTime 23 59 59 999))"

fun startOfDay :: "jsdate \<Rightarrow> jsdate" where
  "startOfDay InvalidDate = InvalidDate"
| "startOfDay (TimeValue t) = setDate_setHours t (DateFromTime t) (MakeTime 0 0 0 0)"

text \<open>\<open>+startOfDay(a) === +startOfDay(b)\<close>: \<open>NaN\<close> is not equal to itself.\<close>

definition isSameDay :: "jsdate \<Rightarrow> jsdate \<Rightarrow> bool" where
  "isSameDay a b =
     (case (startOfDay a, startOfDay b) of
        (TimeValue x, TimeValue y) \<Rightarrow> x = y
      | _ \<Rightarrow> False)"

text \<open>
  \<open>differenceInDays(a, b)\<close>: the number of full days from \<open>b\<close> to \<open>a\<close>, rounded towards
  zero.
\<close>

fun differenceInDays :: "jsdate \<Rightarrow> jsdate \<Rightarrow> jsnum" where
  "differenceInDays (TimeValue a) (TimeValue b) =
     Num (of_int (if b \<le> a then (a - b) div msPerDay else - ((b - a) div msPerDay)))"
| "differenceInDays _ _ = NaN"

fun startOfMonth :: "jsdate \<Rightarrow> jsdate" where
  "startOfMonth InvalidDate = InvalidDate"
| "startOfMonth (TimeValue t) = setDate_setHours t 1 (MakeTime 0 0 0 0)"

text \<open>\<open>date.setFullYear(year, month + 1, 0); date.setHours(23, 59, 59, 999)\<close>\<close>

fun endOfMonth :: "jsdate \<Rightarrow> jsdate" where
  "endOfMonth InvalidDate = InvalidDate"
| "endOfMonth (TimeValue t) =
     TimeClip (MakeDate (MakeDay (YearFromTime t) (MonthFromTime t + 1) 0)
                        (MakeTime 23 59 59 999))"

section \<open>The calculations of \<open>App\<close>\<close>

text \<open>
  Each value that the component computes on a render is a function of what it reads:
  for a \<open>useMemo\<close>, of its dependencies. \<open>ts\<close> is the state \<open>transactions\<close>, \<open>b\<close> the
  state \<open>budget\<close>, and \<open>today\<close> the \<open>new Date()\<close> of the render.
\<close>

definition weekStart :: "jsdate \<Rightarrow> jsdate" where
  "weekStart today = startOfWeek today 1"

definition weekEnd :: "jsdate \<Rightarrow> jsdate" where
  "weekEnd today = endOfWeek today 1"

definition daysLeftInWeek :: "jsdate \<Rightarrow> jsnum" where
  "daysLeftInWeek today = jadd (differenceInDays (weekEnd today) today) (Num 1)"

text \<open>\<open>transactions.filter(t => t.date >= weekStart && t.date <= weekEnd)\<close>\<close>

definition weeklyTransactions :: "Transaction list \<Rightarrow> jsdate \<Rightarrow> jsdate \<Rightarrow> Transaction list" where
  "weeklyTransactions ts ws we =
     filter (\<lambda>t. jge (valueOf (t_date t)) (valueOf ws) \<and> jle (valueOf (t_date t)) (valueOf we)) ts"

text \<open>\<open>.reduce((acc, t) => acc + t.amount, 0)\<close>, which the component writes out five times.\<close>

definition reduce_amounts :: "Transaction list \<Rightarrow> jsnum" where
  "reduce_amounts ts = foldl (\<lambda>acc t. jadd acc (t_amount t)) (Num 0) ts"

definition weeklySpent :: "Transaction list \<Rightarrow> jsnum" where
  "weeklySpent wts = reduce_amounts wts"

definition todaySpent :: "Transaction list \<Rightarrow> jsdate \<Rightarrow> jsnum" where
  "todaySpent ts today = reduce_amounts (filter (\<lambda>t. isSameDay (t_date t) today) ts)"

definition miscSpent :: "Transaction list \<Rightarrow> jsnum" where
  "miscSpent wts = reduce_amounts (filter (\<lambda>t. t_category t = Misc) wts)"

text \<open>\<open>miscSpent > (budget.weeklyAllowance * 0.15)\<close>, with \<open>0.15\<close> the exact decimal.\<close>

definition chaiIndexExceeded :: "jsnum \<Rightarrow> Budget \<Rightarrow> bool" where
  "chaiIndexExceeded misc b = jgt misc (jmul (weeklyAllowance b) (Num (15 / 100)))"

text \<open>
  \<open>counts[t.category] = (counts[t.category] || 0) + t.amount\<close> for each transaction, then
  \<open>Object.entries(counts)\<close>: the keys in the order of their first assignment, each paired
  with its value.
\<close>

definition categoryData :: "Transaction list \<Rightarrow> (Category \<times> jsnum) list" where
  "categoryData wts =
     foldl (\<lambda>counts t.
              AList.update (t_category t)
                (jadd (or_zero (map_of counts (t_category t))) (t_amount t)) counts)
       [] wts"

text \<open>
  \<open>transactions.filter(t => t.date >= startOfMonth(today)).reduce(...)\<close>, the "Total
  Monthly Spend" of the analytics tab.
\<close>

definition monthlySpent :: "Transaction list \<Rightarrow> jsdate \<Rightarrow> jsnum" where
  "monthlySpent ts today =
     reduce_amounts
       (filter (\<lambda>t. jge (valueOf (t_date t)) (valueOf (startOfMonth today))) ts)"

record Calculations =
  c_weeklyTransactions :: "Transaction list"
  c_weeklySpent :: jsnum
  c_dailyLimit :: jsnum
  c_todaySpent :: jsnum
  c_dailyRemaining :: jsnum
  c_miscSpent :: jsnum
  c_chaiIndexExceeded :: bool
  c_categoryData :: "(Category \<times> jsnum) list"

definition App_calculations :: "Transaction list \<Rightarrow> Budget \<Rightarrow> jsdate \<Rightarrow> Calculations" where
  "App_calculations ts b today =
     (let wts = weeklyTransactions ts (weekStart today) (weekEnd today);
          spent = weeklySpent wts;
          dailyLimit = getDailyLimit b spent (daysLeftInWeek today);
          tspent = todaySpent ts today;
          misc = miscSpent wts
      in \<lparr>c_weeklyTransactions = wts, c_weeklySpent = spent, c_dailyLimit = dailyLimit,
          c_todaySpent = tspent, c_dailyRemaining = jsub dailyLimit tspent,
          c_miscSpent = misc, c_chaiIndexExceeded = chaiIndexExceeded misc b,
          c_categoryData = categoryData wts\<rparr>)"

section \<open>Adding a transaction\<close>

datatype Tab = Tab_dashboard | Tab_analytics | Tab_split | Tab_settings

record AppState =
  transactions :: "Transaction list"
  budget :: Budget
  activeTab :: Tab
  isAddModalOpen :: bool
  isScanModalOpen :: bool
  copied :: bool
  newAmount :: string
  newCategory :: Category
  newMethod :: PaymentMethod
  newNote :: string

text \<open>
  \<open>handleAddTransaction\<close>, as the state after the call. \<open>rid\<close> and \<open>now\<close> are what the
  constructor draws. The call returns nothing and throws nothing on either path.
\<close>

definition handleAddTransaction :: "string \<Rightarrow> int \<Rightarrow> AppState \<Rightarrow> AppState" where
  "handleAddTransaction rid now st =
     (if newAmount st = [] \<or> isNaN (parseFloat (newAmount st)) then st
      else
        let t = new_Transaction rid now (parseFloat (newAmount st)) (newCategory st)
                  (newMethod st) (Some (newNote st)) None
        in st\<lparr>transactions := t # transactions st, newAmount := [], newNote := [],
               isAddModalOpen := False\<rparr>)"

text \<open>The state of the component before anything is loaded: the \<open>useState\<close> defaults.\<close>

definition initial_state :: AppState where
  "initial_state =
     \<lparr>transactions = [], budget = new_Budget None None, activeTab = Tab_dashboard,
      isAddModalOpen = False, isScanModalOpen = False, copied = False,
      newAmount = [], newCategory = Mess_Food, newMethod = UPI, newNote = []\<rparr>"

section \<open>Double precision\<close>

text \<open>
  A JavaScript number is an IEEE 754 double: the value of a literal, of a parsed text, of
  a sum and of a product is the double nearest to the exact result, a tie going to the
  even neighbour. The calculations of the previous sections keep the exact result; the
  ones of this section round at every step, in the order in which the program computes.
\<close>

text \<open>The exponent of the leading bit of a positive rational.\<close>

definition floor_log2 :: "rat \<Rightarrow> int" where
  "floor_log2 a =
     (let (n, d) = quotient_of a; k = bitlen n - bitlen d
      in if 2 powi k \<le> a then k else k - 1)"

text \<open>The nearest integer, the even one of the two at a tie.\<close>

definition round_half_even :: "rat \<Rightarrow> int" where
  "round_half_even x =
     (let f = \<lfloor>x\<rfloor>; r = x - of_int f
      in if r < 1 / 2 then f else if 1 / 2 < r then f + 1
         else if even f then f else f + 1)"

definition double_limit :: rat where
  "double_limit = 2 powi 1024"

text \<open>
  The double nearest to a positive rational: 53 significant bits, the spacing of the
  subnormal numbers below \<open>2 powi (- 1022)\<close>, and \<open>Infinity\<close> when the rounded value
  reaches \<open>2 powi 1024\<close>.
\<close>

definition fl_pos :: "rat \<Rightarrow> jsnum" where
  "fl_pos a =
     (let e = max (floor_log2 a) (- 1022);
          ulp = 2 powi (e - 52);
          r = of_int (round_half_even (a / ulp)) * ulp
      in if double_limit \<le> r then PosInf else Num r)"

definition fl :: "rat \<Rightarrow> jsnum" where
  "fl q = (if q = 0 then Num 0 else if 0 < q then fl_pos q else jneg (fl_pos (- q)))"

fun round_result :: "jsnum \<Rightarrow> jsnum" where
  "round_result (Num r) = fl r"
| "round_result v = v"

text \<open>\<open>a + b\<close> and \<open>a * b\<close> on doubles.\<close>

definition dadd :: "jsnum \<Rightarrow> jsnum \<Rightarrow> jsnum" where
  "dadd a b = round_result (jadd a b)"


text \<open>\<open>parseFloat\<close>: the double nearest to the decimal that the text spells.\<close>

definition parseFloat_fp :: "string \<Rightarrow> jsnum" where
  "parseFloat_fp s = round_result (parseFloat s)"

text \<open>\<open>.reduce((acc, t) => acc + t.amount, 0)\<close>\<close>

definition reduce_amounts_fp :: "Transaction list \<Rightarrow> jsnum" where
  "reduce_amounts_fp ts = foldl (\<lambda>acc t. dadd acc (t_amount t)) (Num 0) ts"

definition weeklySpent_fp :: "Transaction list \<Rightarrow> jsnum" where
  "weeklySpent_fp wts = reduce_amounts_fp wts"



text \<open>\<open>counts[t.category] = (counts[t.category] || 0) + t.amount\<close> over the week.\<close>

definition categoryData_fp :: "Transaction list \<Rightarrow> (Category \<times> jsnum) list" where
  "categoryData_fp wts =
     foldl (\<lambda>counts t.
              AList.update (t_category t)
                (dadd (or_zero (map_of counts (t_category t))) (t_amount t)) counts)
       [] wts"


section \<open>The words of the specification\<close>

text \<open>
  The definitions of this section are not in the source. They spell out notions that the
  specification uses to state a property of the code: the range that spans the dates of a
  list, the sum of the totals of a category mapping, the exact sum of decimal amounts, the
  week of a time value and its Misc transactions.
\<close>

fun earliest_date :: "Transaction list \<Rightarrow> jsdate" where
  "earliest_date [] = InvalidDate"
| "earliest_date [t] = t_date t"
| "earliest_date (t # ts) =
     (let e = earliest_date ts in if jlt (valueOf (t_date t)) (valueOf e) then t_date t else e)"

fun latest_date :: "Transaction list \<Rightarrow> jsdate" where
  "latest_date [] = InvalidDate"
| "latest_date [t] = t_date t"
| "latest_date (t # ts) =
     (let l = latest_date ts in if jlt (valueOf l) (valueOf (t_date t)) then t_date t else l)"

text \<open>The sum of the totals of a category mapping, added up as the code adds amounts.\<close>

definition totals_sum :: "(Category \<times> jsnum) list \<Rightarrow> jsnum" where
  "totals_sum cd = foldl (\<lambda>acc p. jadd acc (snd p)) (Num 0) cd"

text \<open>The decimal that a finite number stands for (zero for the others).\<close>

fun decimal_of :: "jsnum \<Rightarrow> rat" where
  "decimal_of (Num a) = a"
| "decimal_of _ = 0"

text \<open>The sum of the totals of a category mapping, added up in doubles.\<close>

definition totals_sum_fp :: "(Category \<times> jsnum) list \<Rightarrow> jsnum" where
  "totals_sum_fp cd = foldl (\<lambda>acc p. dadd acc (snd p)) (Num 0) cd"

text \<open>An amount that is a whole number of rupees, zero or more.\<close>

fun whole_number :: "jsnum \<Rightarrow> bool" where
  "whole_number (Num r) = (0 \<le> r \<and> r = of_int \<lfloor>r\<rfloor>)"
| "whole_number _ = False"

text \<open>
  The week of a time value, by the calendar and not by the code: day 0 of the time scale,
  1 January 1970, is a Thursday, so the Monday on or before day \<open>d\<close> is day
  \<open>d - (d + 3) mod 7\<close>. The week runs from 00:00:00.000 of that Monday to 23:59:59.999 of
  the Sunday after it, in UTC.
\<close>

definition monday_start :: "int \<Rightarrow> int" where
  "monday_start t = (Day t - (Day t + 3) mod 7) * msPerDay"

definition sunday_end :: "int \<Rightarrow> int" where
  "sunday_end t = monday_start t + 7 * msPerDay - 1"


text \<open>
  The total of a category after the loop of \<open>categoryData\<close> has run over \<open>ts\<close>, from the
  entry \<open>m\<close> that the category had before: untouched when \<open>ts\<close> is empty.
\<close>

fun total_after :: "jsnum option \<Rightarrow> Transaction list \<Rightarrow> jsnum option" where
  "total_after m [] = m"
| "total_after m (t # ts) = Some (foldl (\<lambda>acc t. dadd acc (t_amount t)) (or_zero m) (t # ts))"

section \<open>Facts about dates\<close>

subsection \<open>Years\<close>

lemma div_lower: "0 < k \<Longrightarrow> k * (a div k) \<le> (a::int)"
  by (metis mult.commute pos_mod_sign div_mult_mod_eq le_add_same_cancel1)

lemma div_upper: "0 < k \<Longrightarrow> (a::int) + 1 \<le> k * (a div k) + k"
  by (metis add.commute mult.commute pos_mod_bound div_mult_mod_eq add_less_cancel_left zless_imp_add1_zle add.assoc)

lemma DayFromYear_upper: "400 * DayFromYear y \<le> 146097 * (y - 1970) + 589"
proof -
  have "4 * ((y - 1969) div 4) \<le> y - 1969"
    by (rule div_lower) simp
  moreover have "(y - 1901) + 1 \<le> 100 * ((y - 1901) div 100) + 100"
    by (rule div_upper) simp
  moreover have "400 * ((y - 1601) div 400) \<le> y - 1601"
    by (rule div_lower) simp
  ultimately show ?thesis
    unfolding DayFromYear_def by (simp add: algebra_simps)
qed

lemma DayFromYear_lower: "146097 * (y - 1970) - 506 \<le> 400 * DayFromYear y"
proof -
  have "(y - 1969) + 1 \<le> 4 * ((y - 1969) div 4) + 4"
    by (rule div_upper) simp
  moreover have "100 * ((y - 1901) div 100) \<le> y - 1901"
    by (rule div_lower) simp
  moreover have "(y - 1601) + 1 \<le> 400 * ((y - 1601) div 400) + 400"
    by (rule div_upper) simp
  ultimately show ?thesis
    unfolding DayFromYear_def by (simp add: algebra_simps)
qed

lemma div_step:
  fixes a k :: int
  assumes "0 < k"
  shows "(a + 1) div k = a div k + (if (a + 1) mod k = 0 then 1 else 0)"
proof (cases "a mod k + 1 < k")
  case True
  have "a + 1 = k * (a div k) + (a mod k + 1)" by simp
  with True assms have "(a + 1) div k = a div k" "(a + 1) mod k = a mod k + 1"
    using int_div_pos_eq [of "a + 1" k "a div k" "a mod k + 1"]
      int_mod_pos_eq [of "a + 1" k "a div k" "a mod k + 1"] by auto
  moreover have "0 \<le> a mod k" using assms by simp
  ultimately show ?thesis by simp
next
  case False
  with assms have r: "a mod k + 1 = k"
    using pos_mod_bound [of k a] by linarith
  have "a + 1 = k * (a div k) + (a mod k + 1)" by simp
  with r have e: "a + 1 = k * (a div k + 1) + 0" by (simp add: algebra_simps)
  from assms have "(a + 1) div k = a div k + 1" "(a + 1) mod k = 0"
    using int_div_pos_eq [OF e] int_mod_pos_eq [OF e] by auto
  then show ?thesis by simp
qed

lemma mod_shift: "(y - k * c) mod k = y mod (k::int)"
proof -
  have "(y - k * c) mod k = (y - k * c + c * k) mod k" by (simp only: mod_mult_self1)
  then show ?thesis by (simp add: algebra_simps)
qed

lemma DayFromYear_Suc: "DayFromYear (y + 1) = DayFromYear y + DaysInYear y"
proof -
  have m4: "(y - 1968) mod 4 = y mod 4" using mod_shift [of y 4 492] by simp
  have m100: "(y - 1900) mod 100 = y mod 100" using mod_shift [of y 100 19] by simp
  have m400: "(y - 1600) mod 400 = y mod 400" using mod_shift [of y 400 4] by simp
  have a: "(y + 1 - 1969) div 4 = (y - 1969) div 4 + (if y mod 4 = 0 then 1 else 0)"
    using div_step [of 4 "y - 1969"] by (simp add: m4)
  have b: "(y + 1 - 1901) div 100 = (y - 1901) div 100 + (if y mod 100 = 0 then 1 else 0)"
    using div_step [of 100 "y - 1901"] by (simp add: m100)
  have c: "(y + 1 - 1601) div 400 = (y - 1601) div 400 + (if y mod 400 = 0 then 1 else 0)"
    using div_step [of 400 "y - 1601"] by (simp add: m400)
  have d: "y mod 100 = 0" if "y mod 400 = 0"
  proof -
    from that have "400 dvd y" by (simp add: mod_eq_0_iff_dvd)
    moreover have "(100::int) dvd 400" by simp
    ultimately have "100 dvd y" using dvd_trans by blast
    then show ?thesis by (simp add: mod_eq_0_iff_dvd)
  qed
  have e: "y mod 4 = 0" if "y mod 100 = 0"
  proof -
    from that have "100 dvd y" by (simp add: mod_eq_0_iff_dvd)
    moreover have "(4::int) dvd 100" by simp
    ultimately have "4 dvd y" using dvd_trans by blast
    then show ?thesis by (simp add: mod_eq_0_iff_dvd)
  qed
  have f: "DayFromYear (y + 1) = 365 * (y + 1 - 1970) + ((y - 1969) div 4 + (if y mod 4 = 0 then 1 else 0))
     - ((y - 1901) div 100 + (if y mod 100 = 0 then 1 else 0)) + ((y - 1601) div 400 + (if y mod 400 = 0 then 1 else 0))"
    unfolding DayFromYear_def a b c ..
  show ?thesis
  proof (cases "y mod 4 = 0")
    case False
    have n100: "y mod 100 \<noteq> 0"
    proof
      assume "y mod 100 = 0"
      then have "y mod 4 = 0" by (rule e)
      with False show False by contradiction
    qed
    have n400: "y mod 400 \<noteq> 0"
    proof
      assume "y mod 400 = 0"
      then have "y mod 100 = 0" by (rule d)
      with n100 show False by contradiction
    qed
    note n100 n400
    with False show ?thesis
      unfolding f by (simp add: DayFromYear_def DaysInYear_def isLeapYear_def)
  next
    case y4: True
    show ?thesis
    proof (cases "y mod 100 = 0")
      case False
      have "y mod 400 \<noteq> 0"
      proof
        assume "y mod 400 = 0"
        then have "y mod 100 = 0" by (rule d)
        with False show False by contradiction
      qed
      with False y4 show ?thesis
        unfolding f by (simp add: DayFromYear_def DaysInYear_def isLeapYear_def)
    next
      case True
      with y4 show ?thesis
        unfolding f by (simp add: DayFromYear_def DaysInYear_def isLeapYear_def)
    qed
  qed
qed

lemma YearFromDay_bounds:
  "DayFromYear (YearFromDay d) \<le> d \<and> d < DayFromYear (YearFromDay d + 1)"
proof -
  define n where "n = (400 * d) div 146097"
  have n1: "146097 * n \<le> 400 * d"
    unfolding n_def by (rule div_lower) simp
  have n2: "400 * d + 1 \<le> 146097 * n + 146097"
    unfolding n_def by (rule div_upper) simp
  have lo: "DayFromYear (1970 + n - 1) \<le> d"
    using DayFromYear_upper [of "1970 + n - 1"] n1 by simp
  have hi: "d < DayFromYear (1970 + n + 1 + 1)"
    using DayFromYear_lower [of "1970 + n + 1 + 1"] n2 by simp
  show ?thesis
  proof (cases "d < DayFromYear (1970 + n)")
    case True
    then have "YearFromDay d = 1970 + n - 1"
      by (simp add: YearFromDay_def n_def)
    with True lo show ?thesis by simp
  next
    case False
    show ?thesis
    proof (cases "DayFromYear (1970 + n + 1) \<le> d")
      case True
      with False have "YearFromDay d = 1970 + n + 1"
        by (simp add: YearFromDay_def n_def)
      with True hi show ?thesis by simp
    next
      case nle: False
      with False have "YearFromDay d = 1970 + n"
        by (simp add: YearFromDay_def n_def)
      with False nle show ?thesis by simp
    qed
  qed
qed

lemma DayWithinYear_range:
  "0 \<le> DayWithinYear t \<and> DayWithinYear t < DaysInYear (YearFromTime t)"
  using YearFromDay_bounds [of "Day t"] DayFromYear_Suc [of "YearFromTime t"]
  by (simp add: DayWithinYear_def YearFromTime_def)

lemma Day_range:
  assumes "validTime t"
  shows "- 100000000 \<le> Day t \<and> Day t \<le> 100000000"
proof -
  from assms have a: "- 8640000000000000 \<le> t" and b: "t \<le> 8640000000000000"
    by (simp_all add: validTime_def)
  have "(- 8640000000000000) div 86400000 \<le> t div 86400000"
    using a by (rule zdiv_mono1) simp
  moreover have "t div 86400000 \<le> 8640000000000000 div 86400000"
    using b by (rule zdiv_mono1) simp
  ultimately show ?thesis by (simp add: Day_def msPerDay_def)
qed

lemma YearFromTime_range:
  assumes "validTime t"
  shows "- 271822 \<le> YearFromTime t \<and> YearFromTime t \<le> 275760"
proof -
  let ?y = "YearFromTime t"
  from Day_range [OF assms] have d: "- 100000000 \<le> Day t" "Day t \<le> 100000000" by simp_all
  from YearFromDay_bounds [of "Day t"]
  have lo: "DayFromYear ?y \<le> Day t" and hi: "Day t < DayFromYear (?y + 1)"
    by (simp_all add: YearFromTime_def)
  have "146097 * (?y - 1970) - 506 \<le> 400 * 100000000"
    using DayFromYear_lower [of ?y] lo d by simp
  then have up: "?y \<le> 275760" by simp
  have "400 * (- 100000000) < 146097 * (?y + 1 - 1970) + 589"
    using DayFromYear_upper [of "?y + 1"] hi d by simp
  then have "- 271822 \<le> ?y" by simp
  with up show ?thesis by simp
qed

subsection \<open>Months, days and the time within the day\<close>

lemma monthOfDay_range:
  assumes "0 \<le> d" and "d < (if leap then 366 else 365)"
  shows "0 \<le> monthOfDay leap d \<and> monthOfDay leap d \<le> 11
    \<and> monthStart leap (monthOfDay leap d) \<le> d
    \<and> d < monthStart leap (monthOfDay leap d + 1)"
proof (cases leap)
  case True
  with assms show ?thesis
    by (simp add: monthOfDay_def monthStart_def)
next
  case False
  with assms show ?thesis
    by (simp add: monthOfDay_def monthStart_def)
qed

lemma time_fields:
  "MakeTime (HourFromTime t) (MinFromTime t) (SecFromTime t) (msFromTime t) = TimeWithinDay t"
proof -
  define u where "u = t div 1000"
  define v where "v = t div 60000"
  define w where "w = t div 3600000"
  have uv: "u div 60 = v"
    unfolding u_def v_def using zdiv_zmult2_eq [of 60 t 1000] by simp
  have vw: "v div 60 = w"
    unfolding v_def w_def using zdiv_zmult2_eq [of 60 t 60000] by simp
  have a: "t mod 86400000 = 1000 * (u mod 86400) + t mod 1000"
    unfolding u_def using zmod_zmult2_eq [of 86400 t 1000] by simp
  have b: "u mod 86400 = 60 * (v mod 1440) + u mod 60"
    using zmod_zmult2_eq [of 1440 u 60] by (simp add: uv)
  have c: "v mod 1440 = 60 * (w mod 24) + v mod 60"
    using zmod_zmult2_eq [of 24 v 60] by (simp add: vw)
  have "MakeTime (w mod 24) (v mod 60) (u mod 60) (t mod 1000) = t mod 86400000"
    unfolding a b c MakeTime_def by (simp add: algebra_simps)
  then show ?thesis
    unfolding HourFromTime_def MinFromTime_def SecFromTime_def msFromTime_def
      TimeWithinDay_def msPerDay_def u_def v_def w_def .
qed

subsection \<open>Reading back what \<open>toISOString\<close> writes\<close>

lemma of_char_digit_char: "n < 10 \<Longrightarrow> of_char (digit_char n) = 48 + n"
  by (simp add: digit_char_def)

lemma digit_roundtrip: "n < 10 \<Longrightarrow> digit_val (digit_char n) = Some n"
  by (simp add: digit_val_def of_char_digit_char)

lemma digit_char_not_sign:
  assumes "n < 10"
  shows "digit_char n \<noteq> CHR ''+'' \<and> digit_char n \<noteq> CHR ''-''"
proof -
  have "(of_char (digit_char n) :: nat) \<noteq> of_char CHR ''+''"
    and "(of_char (digit_char n) :: nat) \<noteq> of_char CHR ''-''"
    using assms by (simp_all add: of_char_digit_char)
  then show ?thesis by auto
qed

lemma length_pad: "length (pad w n) = w"
  by (induction w arbitrary: n) simp_all

lemma read_digits_append:
  "read_digits acc (xs @ ys) = Option.bind (read_digits acc xs) (\<lambda>a. read_digits a ys)"
  by (induction xs arbitrary: acc) (simp_all split: option.splits)

lemma read_digits_pad:
  "n < 10 ^ w \<Longrightarrow> read_digits acc (pad w n) = Some (acc * 10 ^ w + n)"
proof (induction w arbitrary: n)
  case 0
  then show ?case by simp
next
  case (Suc w)
  from Suc.prems have "n div 10 < 10 ^ w" by (simp add: less_mult_imp_div_less mult.commute)
  then have "read_digits acc (pad w (n div 10)) = Some (acc * 10 ^ w + n div 10)"
    by (rule Suc.IH)
  then show ?case
    by (simp add: read_digits_append digit_roundtrip algebra_simps)
qed

lemma take_num_pad: "n < 10 ^ w \<Longrightarrow> take_num w (pad w n @ r) = Some (n, r)"
  by (simp add: take_num_def length_pad read_digits_pad)

lemma pad_4_head:
  "\<exists>cs. pad 4 n = digit_char (n div 10 div 10 div 10 mod 10) # cs"
proof -
  have "(4::nat) = Suc (Suc (Suc (Suc 0)))" by simp
  then show ?thesis by (simp only: pad.simps) simp
qed

lemma parseYear_digit:
  "c \<noteq> CHR ''+'' \<Longrightarrow> c \<noteq> CHR ''-'' \<Longrightarrow>
   parseYear (c # s) = map_option (\<lambda>(n, r'). (int n, r')) (take_num 4 (c # s))"
  by (simp add: parseYear_def)

lemma parseYear_yearString:
  assumes "- 999999 \<le> y" and "y \<le> 999999"
  shows "parseYear (yearString y @ r) = Some (y, r)"
proof (cases "0 \<le> y \<and> y \<le> 9999")
  case True
  then have n: "nat y < 10 ^ 4" by auto
  obtain cs where shape: "pad 4 (nat y) = digit_char (nat y div 10 div 10 div 10 mod 10) # cs"
    using pad_4_head by blast
  let ?c = "digit_char (nat y div 10 div 10 div 10 mod 10)"
  have sign: "?c \<noteq> CHR ''+''" "?c \<noteq> CHR ''-''"
    using digit_char_not_sign [of "nat y div 10 div 10 div 10 mod 10"] by simp_all
  have "parseYear (pad 4 (nat y) @ r) = parseYear (?c # (cs @ r))"
    by (simp add: shape)
  also have "\<dots> = map_option (\<lambda>(n, r'). (int n, r')) (take_num 4 (?c # (cs @ r)))"
    using sign by (rule parseYear_digit)
  also have "?c # (cs @ r) = pad 4 (nat y) @ r"
    by (simp add: shape)
  also have "take_num 4 (pad 4 (nat y) @ r) = Some (nat y, r)"
    using n by (rule take_num_pad)
  finally show ?thesis using True by (simp add: yearString_def)
next
  case False
  from assms have n: "nat \<bar>y\<bar> < 10 ^ 6" by simp
  have tn: "take_num 6 (pad 6 (nat \<bar>y\<bar>) @ r) = Some (nat \<bar>y\<bar>, r)"
    using n by (rule take_num_pad)
  show ?thesis
  proof (cases "y < 0")
    case True
    with False tn show ?thesis
      by (simp add: yearString_def parseYear_def)
  next
    case nonneg: False
    with False tn show ?thesis
      by (simp add: yearString_def parseYear_def)
  qed
qed

lemma MakeDay_fields:
  "MakeDay (YearFromTime t) (MonthFromTime t) (DateFromTime t) = Day t"
proof -
  let ?leap = "isLeapYear (YearFromTime t)"
  from DayWithinYear_range [of t]
  have r: "0 \<le> DayWithinYear t" "DayWithinYear t < (if ?leap then 366 else 365)"
    by (simp_all add: DaysInYear_def)
  from monthOfDay_range [OF r]
  have m: "0 \<le> MonthFromTime t" "MonthFromTime t \<le> 11"
    by (simp_all add: MonthFromTime_def InLeapYear_def)
  then have "MonthFromTime t div 12 = 0" "MonthFromTime t mod 12 = MonthFromTime t"
    by simp_all
  then show ?thesis
    by (simp add: MakeDay_def DateFromTime_def InLeapYear_def DayWithinYear_def)
qed

lemma date_fields_range:
  shows "0 \<le> MonthFromTime t" and "MonthFromTime t \<le> 11" and "1 \<le> DateFromTime t"
    and "DateFromTime t \<le> DaysInMonth (YearFromTime t) (MonthFromTime t)"
    and "DateFromTime t \<le> 31"
proof -
  let ?leap = "isLeapYear (YearFromTime t)"
  from DayWithinYear_range [of t]
  have r: "0 \<le> DayWithinYear t" "DayWithinYear t < (if ?leap then 366 else 365)"
    by (simp_all add: DaysInYear_def)
  from monthOfDay_range [OF r]
  have m: "0 \<le> MonthFromTime t" "MonthFromTime t \<le> 11"
    and lo: "monthStart ?leap (MonthFromTime t) \<le> DayWithinYear t"
    and hi: "DayWithinYear t < monthStart ?leap (MonthFromTime t + 1)"
    by (simp_all add: MonthFromTime_def InLeapYear_def)
  have len: "monthStart ?leap (MonthFromTime t + 1) - monthStart ?leap (MonthFromTime t) \<le> 31"
  proof -
    from m have "MonthFromTime t = 0 \<or> MonthFromTime t = 1 \<or> MonthFromTime t = 2
      \<or> MonthFromTime t = 3 \<or> MonthFromTime t = 4 \<or> MonthFromTime t = 5
      \<or> MonthFromTime t = 6 \<or> MonthFromTime t = 7 \<or> MonthFromTime t = 8
      \<or> MonthFromTime t = 9 \<or> MonthFromTime t = 10 \<or> MonthFromTime t = 11"
      by presburger
    then show ?thesis by (elim disjE) (simp_all add: monthStart_def)
  qed
  from m lo hi len
  show "0 \<le> MonthFromTime t" and "MonthFromTime t \<le> 11" and "1 \<le> DateFromTime t"
    and "DateFromTime t \<le> DaysInMonth (YearFromTime t) (MonthFromTime t)"
    and "DateFromTime t \<le> 31"
    by (simp_all add: DateFromTime_def DaysInMonth_def InLeapYear_def)
qed

lemma time_fields_range:
  shows "0 \<le> HourFromTime t" and "HourFromTime t < 24"
    and "0 \<le> MinFromTime t" and "MinFromTime t < 60"
    and "0 \<le> SecFromTime t" and "SecFromTime t < 60"
    and "0 \<le> msFromTime t" and "msFromTime t < 1000"
  by (simp_all add: HourFromTime_def MinFromTime_def SecFromTime_def msFromTime_def)

lemma parseFields_isoString:
  assumes "validTime t"
  shows "parseFields (isoString t) =
    Some (YearFromTime t, nat (MonthFromTime t + 1), nat (DateFromTime t), nat (HourFromTime t),
          nat (MinFromTime t), nat (SecFromTime t), nat (msFromTime t))"
proof -
  from YearFromTime_range [OF assms]
  have y: "- 999999 \<le> YearFromTime t" "YearFromTime t \<le> 999999" by simp_all
  from date_fields_range [of t]
  have mo: "nat (MonthFromTime t + 1) < 10 ^ 2" and d: "nat (DateFromTime t) < 10 ^ 2"
    by simp_all
  from time_fields_range [of t]
  have h: "nat (HourFromTime t) < 10 ^ 2" and mi: "nat (MinFromTime t) < 10 ^ 2"
    and s: "nat (SecFromTime t) < 10 ^ 2" and ms: "nat (msFromTime t) < 10 ^ 3"
    by simp_all
  show ?thesis
    unfolding parseFields_def isoString_def
    by (simp add: parseYear_yearString [OF y] take_num_pad [OF mo] take_num_pad [OF d]
        take_num_pad [OF h] take_num_pad [OF mi] take_num_pad [OF s] take_num_pad [OF ms])
qed

lemma new_Date_isoString:
  assumes "validTime t"
  shows "new_Date_string (isoString t) = TimeValue t"
proof -
  from date_fields_range [of t]
  have mo: "1 \<le> nat (MonthFromTime t + 1)" "nat (MonthFromTime t + 1) \<le> 12"
    "int (nat (MonthFromTime t + 1)) - 1 = MonthFromTime t"
    and d: "1 \<le> nat (DateFromTime t)" "int (nat (DateFromTime t)) = DateFromTime t"
    "DateFromTime t \<le> DaysInMonth (YearFromTime t) (MonthFromTime t)"
    by simp_all
  from time_fields_range [of t]
  have tm: "nat (HourFromTime t) < 24" "nat (MinFromTime t) \<le> 59" "nat (SecFromTime t) \<le> 59"
    "int (nat (HourFromTime t)) = HourFromTime t" "int (nat (MinFromTime t)) = MinFromTime t"
    "int (nat (SecFromTime t)) = SecFromTime t" "int (nat (msFromTime t)) = msFromTime t"
    by simp_all
  have whole: "MakeDate (Day t) (TimeWithinDay t) = t"
    by (simp add: MakeDate_def Day_def TimeWithinDay_def)
  have "dateFromFields (YearFromTime t) (nat (MonthFromTime t + 1)) (nat (DateFromTime t))
      (nat (HourFromTime t)) (nat (MinFromTime t)) (nat (SecFromTime t)) (nat (msFromTime t))
    = TimeClip t"
    unfolding dateFromFields_def
    using mo(1,2) d(1,3) tm(1,2,3)
    by (simp only: mo(3) d(2) tm(4,5,6,7) MakeDay_fields time_fields whole) simp
  then show ?thesis
    using assms by (simp add: new_Date_string_def parseFields_isoString TimeClip_def)
qed

subsection \<open>The week\<close>





lemma monday_weekday: "((k - (k + 3) mod 7) + 4) mod 7 = (1::int)"
proof -
  have "(k + 3) - (k + 3) mod 7 = 7 * ((k + 3) div 7)"
    by (rule minus_mod_eq_mult_div)
  then have "(k - (k + 3) mod 7) + 4 = 1 + 7 * ((k + 3) div 7)" by linarith
  then show ?thesis by (simp only: mod_mult_self2) simp
qed



lemma Day_of_midnight: "Day (k * msPerDay) = k" "TimeWithinDay (k * msPerDay) = 0"
  by (simp_all add: Day_def TimeWithinDay_def msPerDay_def)

lemma monday_start_is_monday:
  shows "WeekDay (monday_start t) = 1" and "TimeWithinDay (monday_start t) = 0"
    and "monday_start t \<le> t" and "t \<le> sunday_end t"
proof -
  show "WeekDay (monday_start t) = 1"
    unfolding WeekDay_def monday_start_def Day_of_midnight by (rule monday_weekday)
  show "TimeWithinDay (monday_start t) = 0"
    unfolding monday_start_def by (rule Day_of_midnight)
  have m: "0 \<le> (Day t + 3) mod 7" "(Day t + 3) mod 7 < 7" by simp_all
  have d: "Day t * msPerDay \<le> t" "t < Day t * msPerDay + msPerDay"
    using div_lower [of msPerDay t] div_upper [of msPerDay t]
    by (simp_all add: Day_def msPerDay_def mult.commute)
  from m(1) have "(Day t - (Day t + 3) mod 7) * msPerDay \<le> Day t * msPerDay"
    by (simp add: msPerDay_def)
  with d(1) show "monday_start t \<le> t" by (simp add: monday_start_def)
  from m(2) have "Day t * msPerDay + msPerDay \<le> (Day t - (Day t + 3) mod 7) * msPerDay + 7 * msPerDay"
    by (simp add: msPerDay_def algebra_simps)
  with d(2) show "t \<le> sunday_end t" by (simp add: sunday_end_def monday_start_def)
qed

section \<open>The daily limit\<close>

lemma Math_max_cases:
  "Math_max (Num c) x = NaN \<or> Math_max (Num c) x = PosInf \<or>
   (\<exists>r. c \<le> r \<and> Math_max (Num c) x = Num r)"
  by (cases x) (auto simp: Math_max_def)

lemma jdiv_nonneg:
  assumes "a = NaN \<or> a = PosInf \<or> (\<exists>r. 0 \<le> r \<and> a = Num r)"
    and "b = NaN \<or> b = PosInf \<or> (\<exists>r. 1 \<le> r \<and> b = Num r)"
  shows "\<not> jlt (jdiv a b) (Num 0)"
  using assms by (cases a; cases b) (auto simp: divide_less_0_iff)

text \<open>
  Claim C1. On finite arguments \<open>Budget.getDailyLimit\<close> returns
  \<open>max(0, weeklyAllowance - weeklySpent) / max(1, daysLeft)\<close>, a number that is not
  negative. On every argument, the special values included, the result is never less
  than zero, and the divisor \<open>Math.max(1, daysLeft)\<close> is never zero: zero days left
  divide by one.
\<close>

theorem getDailyLimit_formula:
  "getDailyLimit \<lparr>monthlyLimit = ml, weeklyAllowance = Num wa\<rparr> (Num ws) (Num d)
     = Num (max 0 (wa - ws) / max 1 d)
   \<and> 0 \<le> max 0 (wa - ws) / max 1 d
   \<and> \<not> jlt (getDailyLimit b spent days) (Num 0)
   \<and> Math_max (Num 1) days \<noteq> Num 0
   \<and> Math_max (Num 1) (Num 0) = Num 1"
proof -
  have finite_case:
    "getDailyLimit \<lparr>monthlyLimit = ml, weeklyAllowance = Num wa\<rparr> (Num ws) (Num d)
       = Num (max 0 (wa - ws) / max 1 d)"
    by (simp add: getDailyLimit_def Math_max_def jsub_def max_def)
  have nonneg: "0 \<le> max 0 (wa - ws) / max 1 d"
    by (simp add: max_def)
  have never_negative: "\<not> jlt (getDailyLimit b spent days) (Num 0)"
    unfolding getDailyLimit_def Let_def
    by (rule jdiv_nonneg) (rule Math_max_cases)+
  have divisor: "Math_max (Num 1) days \<noteq> Num 0"
    using Math_max_cases [of 1 days] by auto
  have zero_days: "Math_max (Num 1) (Num 0) = Num 1"
    by (simp add: Math_max_def)
  from finite_case nonneg never_negative divisor zero_days show ?thesis
    by blast
qed

theorem getDailyLimit_formula_witness:
  "getDailyLimit (new_Budget None None) (Num 1000) (Num 4) = Num 750
   \<and> getDailyLimit (new_Budget None None) (Num 5000) (Num 2) = Num 0
   \<and> getDailyLimit (new_Budget None None) (Num 1000) (Num 0) = Num 3000"
  using getDailyLimit_formula [of "Num 25000" 4000 1000 4]
    getDailyLimit_formula [of "Num 25000" 4000 5000 2]
    getDailyLimit_formula [of "Num 25000" 4000 1000 0]
  by (simp add: new_Budget_def)

section \<open>Serialising a transaction\<close>

lemma isoString_example: "isoString 1793615415000 = ''2026-11-02T10:30:15.000Z''"
  by code_simp

text \<open>
  Claim C3. A transaction of the data model carries a timestamp, that is a \<open>Date\<close> with a
  time value (an Invalid Date has none, and \<open>toISOString\<close> throws on it). For every such
  transaction \<open>toJSON\<close> returns an object whose \<open>date\<close> is the ISO 8601 string of the
  timestamp, and \<open>fromJSON\<close> makes of that object a transaction equal to the original in
  every field: the identifier is the original one, whatever identifier \<open>rid\<close> the
  constructor has drawn in between, and the date is the same instant, whatever the clock
  \<open>now\<close> reads.
\<close>

theorem toJSON_fromJSON_roundtrip:
  assumes "t_date t = TimeValue ms" and "validTime ms"
  shows "toJSON t =
      Inr \<lparr>j_id = t_id t, j_amount = t_amount t, j_category = t_category t,
           j_method = t_method t, j_date = isoString ms, j_note = t_note t\<rparr>
    \<and> fromJSON rid now
        \<lparr>j_id = t_id t, j_amount = t_amount t, j_category = t_category t,
         j_method = t_method t, j_date = isoString ms, j_note = t_note t\<rparr> = t
    \<and> map_sum (\<lambda>e. e) (fromJSON rid now) (toJSON t) = Inr t"
proof -
  let ?j = "\<lparr>j_id = t_id t, j_amount = t_amount t, j_category = t_category t,
             j_method = t_method t, j_date = isoString ms, j_note = t_note t\<rparr>"
  from assms(1) have ser: "toJSON t = Inr ?j"
    by (simp add: toJSON_def)
  from assms have deser: "fromJSON rid now ?j = t"
    by (simp add: fromJSON_def new_Transaction_def new_Date_isoString)
  from ser deser show ?thesis by simp
qed

theorem toJSON_fromJSON_roundtrip_witness:
  "toJSON \<lparr>t_id = ''k3j9x0q2a'', t_amount = Num 120, t_category = Mess_Food, t_method = UPI,
           t_date = TimeValue 1793615415000, t_note = ''lunch''\<rparr>
     = Inr \<lparr>j_id = ''k3j9x0q2a'', j_amount = Num 120, j_category = Mess_Food, j_method = UPI,
            j_date = ''2026-11-02T10:30:15.000Z'', j_note = ''lunch''\<rparr>
   \<and> fromJSON ''zzzzzzzzz'' 0
        \<lparr>j_id = ''k3j9x0q2a'', j_amount = Num 120, j_category = Mess_Food, j_method = UPI,
         j_date = ''2026-11-02T10:30:15.000Z'', j_note = ''lunch''\<rparr>
     = \<lparr>t_id = ''k3j9x0q2a'', t_amount = Num 120, t_category = Mess_Food, t_method = UPI,
        t_date = TimeValue 1793615415000, t_note = ''lunch''\<rparr>"
  using toJSON_fromJSON_roundtrip
    [of "\<lparr>t_id = ''k3j9x0q2a'', t_amount = Num 120, t_category = Mess_Food, t_method = UPI,
          t_date = TimeValue 1793615415000, t_note = ''lunch''\<rparr>" 1793615415000
        "''zzzzzzzzz''" 0]
  by (simp add: validTime_def isoString_example)

text \<open>
  Outside the data model: a \<open>Date\<close> can be an Invalid Date (what \<open>new Date(s)\<close> makes of a
  string that is no date), and serialising a transaction with such a date throws.
\<close>

lemma toJSON_InvalidDate: "t_date t = InvalidDate \<Longrightarrow> toJSON t = Inl RangeError"
  by (simp add: toJSON_def)

section \<open>Adding a transaction: the guard and the new list\<close>

lemma parseFloat_examples:
  "parseFloat ''Infinity'' = PosInf"
  "parseFloat ''abc'' = NaN"
  "parseFloat [] = NaN"
  "parseFloat ''12.5'' = Num (25 / 2)"
  by code_simp+

text \<open>
  Claim C5, as the code has it. The guard of \<open>handleAddTransaction\<close> is
  \<open>!newAmount || isNaN(parseFloat(newAmount))\<close>: when the amount text is empty or
  \<open>parseFloat\<close> finds no number at its head, the call changes nothing, the transaction
  list included, and raises nothing.
\<close>

theorem handleAddTransaction_noop:
  assumes "newAmount st = [] \<or> isNaN (parseFloat (newAmount st))"
  shows "handleAddTransaction rid now st = st
    \<and> transactions (handleAddTransaction rid now st) = transactions st"
  using assms by (auto simp: handleAddTransaction_def)

theorem handleAddTransaction_noop_witness:
  "handleAddTransaction ''k3j9x0q2a'' 1793615415000
       (initial_state\<lparr>newAmount := ''abc'', isAddModalOpen := True\<rparr>)
     = initial_state\<lparr>newAmount := ''abc'', isAddModalOpen := True\<rparr>
   \<and> handleAddTransaction ''k3j9x0q2a'' 1793615415000 (initial_state\<lparr>isAddModalOpen := True\<rparr>)
     = initial_state\<lparr>isAddModalOpen := True\<rparr>"
  using handleAddTransaction_noop
      [of "initial_state\<lparr>newAmount := ''abc'', isAddModalOpen := True\<rparr>" "''k3j9x0q2a''"
        1793615415000]
    handleAddTransaction_noop
      [of "initial_state\<lparr>isAddModalOpen := True\<rparr>" "''k3j9x0q2a''" 1793615415000]
  by (simp add: parseFloat_examples initial_state_def)

text \<open>
  The claim as the specification states it asks the same of every text that does not
  parse to a finite number. The text \<open>Infinity\<close> parses to the number \<open>Infinity\<close>, which is
  not finite and is not \<open>NaN\<close>: the guard lets it through and a transaction of that amount
  is added.
\<close>

theorem handleAddTransaction_Infinity_counterexample:
  "\<not> isFinite (parseFloat ''Infinity'')
   \<and> transactions (initial_state\<lparr>newAmount := ''Infinity'', isAddModalOpen := True\<rparr>) = []
   \<and> transactions
        (handleAddTransaction ''k3j9x0q2a'' 1793615415000
           (initial_state\<lparr>newAmount := ''Infinity'', isAddModalOpen := True\<rparr>))
     = [\<lparr>t_id = ''k3j9x0q2a'', t_amount = PosInf, t_category = Mess_Food, t_method = UPI,
         t_date = TimeValue 1793615415000, t_note = []\<rparr>]"
  by (simp add: handleAddTransaction_def parseFloat_examples initial_state_def
      new_Transaction_def)

text \<open>
  Claim C10. When the amount text is not empty and \<open>parseFloat\<close> reads a number from it,
  the transaction list after \<open>handleAddTransaction\<close> is the new transaction followed by
  the list before, unchanged: the new one is first. It has the identifier drawn, the
  amount read, the category, method and note of the form, and the time of the call.
\<close>

theorem handleAddTransaction_prepends:
  assumes "newAmount st \<noteq> []" and "\<not> isNaN (parseFloat (newAmount st))"
  shows "transactions (handleAddTransaction rid now st) =
      \<lparr>t_id = rid, t_amount = parseFloat (newAmount st), t_category = newCategory st,
       t_method = newMethod st, t_date = TimeValue now, t_note = newNote st\<rparr>
      # transactions st
    \<and> tl (transactions (handleAddTransaction rid now st)) = transactions st
    \<and> budget (handleAddTransaction rid now st) = budget st"
  using assms by (simp add: handleAddTransaction_def new_Transaction_def Let_def)

theorem handleAddTransaction_prepends_witness:
  "transactions
     (handleAddTransaction ''k3j9x0q2a'' 1793615415000
        (initial_state
           \<lparr>transactions :=
              [\<lparr>t_id = ''a1b2c3d4e'', t_amount = Num 40, t_category = Metro_Auto,
                t_method = Cash, t_date = TimeValue 1793577600000, t_note = ''auto''\<rparr>],
            newAmount := ''12.5'', newCategory := Misc, newNote := ''chai''\<rparr>))
   = [\<lparr>t_id = ''k3j9x0q2a'', t_amount = Num (25 / 2), t_category = Misc, t_method = UPI,
       t_date = TimeValue 1793615415000, t_note = ''chai''\<rparr>,
      \<lparr>t_id = ''a1b2c3d4e'', t_amount = Num 40, t_category = Metro_Auto,
       t_method = Cash, t_date = TimeValue 1793577600000, t_note = ''auto''\<rparr>]"
  using handleAddTransaction_prepends
    [of "initial_state
           \<lparr>transactions :=
              [\<lparr>t_id = ''a1b2c3d4e'', t_amount = Num 40, t_category = Metro_Auto,
                t_method = Cash, t_date = TimeValue 1793577600000, t_note = ''auto''\<rparr>],
            newAmount := ''12.5'', newCategory := Misc, newNote := ''chai''\<rparr>"
        "''k3j9x0q2a''" 1793615415000]
  by (simp add: parseFloat_examples initial_state_def)

section \<open>Sums over windows\<close>

lemma jadd_zero [simp]: "jadd x (Num 0) = x" "jadd (Num 0) x = x"
  by (cases x; simp)+

lemma compare_Num [simp]:
  "jge (Num a) (Num b) = (b \<le> a)"
  "jle (Num a) (Num b) = (a \<le> b)"
  "jgt (Num a) (Num b) = (b < a)"
  by (auto simp: jge_def jle_def jgt_def)

lemma earliest_date_least:
  assumes "ts \<noteq> []" and "\<forall>t\<in>set ts. t_date t \<noteq> InvalidDate"
  shows "\<exists>m. earliest_date ts = TimeValue m \<and> (\<forall>t\<in>set ts. \<exists>a. t_date t = TimeValue a \<and> m \<le> a)"
  using assms
proof (induction ts rule: earliest_date.induct)
  case 1
  then show ?case by simp
next
  case (2 t)
  then show ?case by (cases "t_date t") auto
next
  case (3 t u us)
  then obtain m where m: "earliest_date (u # us) = TimeValue m"
    and least: "\<forall>x\<in>set (u # us). \<exists>a. t_date x = TimeValue a \<and> m \<le> a"
    by auto
  from "3.prems" obtain a where a: "t_date t = TimeValue a"
    by (cases "t_date t") auto
  show ?case
  proof (cases "a < m")
    case True
    with m a have "earliest_date (t # u # us) = TimeValue a" by simp
    with True a least show ?thesis by force
  next
    case False
    with m a have "earliest_date (t # u # us) = TimeValue m" by simp
    with False a least show ?thesis by force
  qed
qed

lemma latest_date_greatest:
  assumes "ts \<noteq> []" and "\<forall>t\<in>set ts. t_date t \<noteq> InvalidDate"
  shows "\<exists>m. latest_date ts = TimeValue m \<and> (\<forall>t\<in>set ts. \<exists>a. t_date t = TimeValue a \<and> a \<le> m)"
  using assms
proof (induction ts rule: latest_date.induct)
  case 1
  then show ?case by simp
next
  case (2 t)
  then show ?case by (cases "t_date t") auto
next
  case (3 t u us)
  then obtain m where m: "latest_date (u # us) = TimeValue m"
    and greatest: "\<forall>x\<in>set (u # us). \<exists>a. t_date x = TimeValue a \<and> a \<le> m"
    by auto
  from "3.prems" obtain a where a: "t_date t = TimeValue a"
    by (cases "t_date t") auto
  show ?case
  proof (cases "m < a")
    case True
    with m a have "latest_date (t # u # us) = TimeValue a" by simp
    with True a greatest show ?thesis by force
  next
    case False
    with m a have "latest_date (t # u # us) = TimeValue m" by simp
    with False a greatest show ?thesis by force
  qed
qed

lemma isFinite_Num: "isFinite x \<Longrightarrow> x = Num (decimal_of x)"
  by (cases x) simp_all

lemma foldl_jadd_finite:
  assumes "\<forall>x\<in>set xs. isFinite (f x)"
  shows "foldl (\<lambda>acc x. jadd acc (f x)) (Num a) xs = Num (a + sum_list (map (\<lambda>x. decimal_of (f x)) xs))"
  using assms
proof (induction xs arbitrary: a)
  case Nil
  then show ?case by simp
next
  case (Cons x xs)
  then have "f x = Num (decimal_of (f x))" by (simp add: isFinite_Num)
  then have "jadd (Num a) (f x) = Num (a + decimal_of (f x))"
    by (metis jadd.simps(1))
  with Cons show ?case by (simp add: add.assoc)
qed

lemma reduce_amounts_finite:
  "\<forall>t\<in>set ts. isFinite (t_amount t) \<Longrightarrow>
   reduce_amounts ts = Num (sum_list (map (\<lambda>t. decimal_of (t_amount t)) ts))"
  using foldl_jadd_finite [of ts t_amount 0] by (simp add: reduce_amounts_def)

lemma totals_sum_finite:
  "\<forall>p\<in>set cd. isFinite (snd p) \<Longrightarrow>
   totals_sum cd = Num (sum_list (map (\<lambda>p. decimal_of (snd p)) cd))"
  using foldl_jadd_finite [of cd snd 0] by (simp add: totals_sum_def)

lemma week_example:
  "weekStart (TimeValue 1793615415000) = TimeValue 1793577600000"
  "weekEnd (TimeValue 1793615415000) = TimeValue 1794182399999"
  "daysLeftInWeek (TimeValue 1793615415000) = Num 7"
  by code_simp+

text \<open>
  Claim C6. The windowed sum is the filter of \<open>weeklyTransactions\<close> followed by the
  \<open>reduce\<close> of \<open>weeklySpent\<close>, for a window from \<open>ws\<close> to \<open>we\<close>. For every list that is
  not empty and whose dates are timestamps, the window from the earliest to the latest
  date of the list keeps every transaction, and the windowed sum is the sum of all the
  amounts of the list: what the same \<open>reduce\<close> gives on the whole list, and the exact sum
  when the amounts are finite.
\<close>

theorem sumInRange_full_range:
  assumes "ts \<noteq> []" and "\<forall>t\<in>set ts. t_date t \<noteq> InvalidDate"
  shows "weeklyTransactions ts (earliest_date ts) (latest_date ts) = ts
    \<and> weeklySpent (weeklyTransactions ts (earliest_date ts) (latest_date ts)) = reduce_amounts ts
    \<and> ((\<forall>t\<in>set ts. isFinite (t_amount t)) \<longrightarrow>
        weeklySpent (weeklyTransactions ts (earliest_date ts) (latest_date ts))
          = Num (sum_list (map (\<lambda>t. decimal_of (t_amount t)) ts)))"
proof -
  from earliest_date_least [OF assms] obtain lo where lo: "earliest_date ts = TimeValue lo"
    and least: "\<forall>t\<in>set ts. \<exists>a. t_date t = TimeValue a \<and> lo \<le> a"
    by blast
  from latest_date_greatest [OF assms] obtain hi where hi: "latest_date ts = TimeValue hi"
    and greatest: "\<forall>t\<in>set ts. \<exists>a. t_date t = TimeValue a \<and> a \<le> hi"
    by blast
  have "\<forall>t\<in>set ts. jge (valueOf (t_date t)) (valueOf (TimeValue lo))
      \<and> jle (valueOf (t_date t)) (valueOf (TimeValue hi))"
  proof
    fix t assume "t \<in> set ts"
    with least greatest obtain a where "t_date t = TimeValue a" "lo \<le> a" "a \<le> hi"
      by fastforce
    then show "jge (valueOf (t_date t)) (valueOf (TimeValue lo))
      \<and> jle (valueOf (t_date t)) (valueOf (TimeValue hi))"
      by simp
  qed
  then have "weeklyTransactions ts (TimeValue lo) (TimeValue hi) = ts"
    unfolding weeklyTransactions_def by (simp only: filter_True)
  then have whole: "weeklyTransactions ts (earliest_date ts) (latest_date ts) = ts"
    by (simp add: lo hi)
  then have same: "weeklySpent (weeklyTransactions ts (earliest_date ts) (latest_date ts))
    = reduce_amounts ts"
    by (simp add: weeklySpent_def)
  from whole same show ?thesis
    by (simp add: reduce_amounts_finite)
qed

theorem sumInRange_full_range_witness:
  "weeklySpent
     (weeklyTransactions
        [\<lparr>t_id = ''a'', t_amount = Num 100, t_category = Misc, t_method = UPI,
          t_date = TimeValue 1793782800000, t_note = []\<rparr>,
         \<lparr>t_id = ''b'', t_amount = Num 50, t_category = Social, t_method = Cash,
          t_date = TimeValue 1793615415000, t_note = []\<rparr>,
         \<lparr>t_id = ''c'', t_amount = Num (51 / 2), t_category = Misc, t_method = Card,
          t_date = TimeValue 1797336000000, t_note = []\<rparr>]
        (TimeValue 1793615415000) (TimeValue 1797336000000))
   = Num (351 / 2)"
  using sumInRange_full_range
    [of "[\<lparr>t_id = ''a'', t_amount = Num 100, t_category = Misc, t_method = UPI,
          t_date = TimeValue 1793782800000, t_note = []\<rparr>,
         \<lparr>t_id = ''b'', t_amount = Num 50, t_category = Social, t_method = Cash,
          t_date = TimeValue 1793615415000, t_note = []\<rparr>,
         \<lparr>t_id = ''c'', t_amount = Num (51 / 2), t_category = Misc, t_method = Card,
          t_date = TimeValue 1797336000000, t_note = []\<rparr>]"]
  by (simp add: reduce_amounts_def weeklySpent_def)

text \<open>
  Claim C8. With no transactions the weekly sum and the sum of today are zero, the daily
  remainder is the daily limit and is not below zero (no overspend), and the category
  data is empty; so are the Misc sum and the monthly sum.
\<close>

theorem empty_list_neutral:
  "c_weeklySpent (App_calculations [] b today) = Num 0
   \<and> c_todaySpent (App_calculations [] b today) = Num 0
   \<and> c_dailyRemaining (App_calculations [] b today) = c_dailyLimit (App_calculations [] b today)
   \<and> \<not> jlt (c_dailyRemaining (App_calculations [] b today)) (Num 0)
   \<and> c_categoryData (App_calculations [] b today) = []
   \<and> c_miscSpent (App_calculations [] b today) = Num 0
   \<and> monthlySpent [] today = Num 0"
proof -
  have sums: "weeklySpent (weeklyTransactions [] (weekStart today) (weekEnd today)) = Num 0"
    "todaySpent [] today = Num 0"
    "miscSpent (weeklyTransactions [] (weekStart today) (weekEnd today)) = Num 0"
    "monthlySpent [] today = Num 0"
    "categoryData (weeklyTransactions [] (weekStart today) (weekEnd today)) = []"
    by (simp_all add: weeklySpent_def weeklyTransactions_def todaySpent_def miscSpent_def
        monthlySpent_def categoryData_def reduce_amounts_def)
  have remaining: "jsub x (Num 0) = x" for x
    by (simp add: jsub_def)
  have limit: "\<not> jlt (getDailyLimit b (Num 0) (daysLeftInWeek today)) (Num 0)"
    unfolding getDailyLimit_def Let_def
    by (rule jdiv_nonneg) (rule Math_max_cases)+
  from sums remaining limit show ?thesis
    by (simp add: App_calculations_def Let_def)
qed

theorem empty_list_neutral_witness:
  "c_weeklySpent (App_calculations [] (new_Budget None None) (TimeValue 1793615415000)) = Num 0
   \<and> c_todaySpent (App_calculations [] (new_Budget None None) (TimeValue 1793615415000)) = Num 0
   \<and> c_dailyLimit (App_calculations [] (new_Budget None None) (TimeValue 1793615415000))
       = Num (4000 / 7)
   \<and> c_dailyRemaining (App_calculations [] (new_Budget None None) (TimeValue 1793615415000))
       = Num (4000 / 7)
   \<and> c_categoryData (App_calculations [] (new_Budget None None) (TimeValue 1793615415000)) = []"
  using empty_list_neutral [of "new_Budget None None" "TimeValue 1793615415000"]
  by (simp add: App_calculations_def Let_def week_example getDailyLimit_def new_Budget_def
      Math_max_def jsub_def weeklySpent_def weeklyTransactions_def reduce_amounts_def)

text \<open>
  Claim C9. When no transaction of the current week has the category Misc and the weekly
  allowance is positive, the Misc sum of the week is zero and the Chai-Index alert is
  off.
\<close>

theorem no_Misc_no_alert:
  assumes "\<forall>t\<in>set (weeklyTransactions ts (weekStart today) (weekEnd today)). t_category t \<noteq> Misc"
    and "jlt (Num 0) (weeklyAllowance b)"
  shows "c_miscSpent (App_calculations ts b today) = Num 0
    \<and> \<not> c_chaiIndexExceeded (App_calculations ts b today)"
proof -
  from assms(1)
  have "filter (\<lambda>t. t_category t = Misc) (weeklyTransactions ts (weekStart today) (weekEnd today)) = []"
    by (simp add: filter_empty_conv)
  then have misc: "miscSpent (weeklyTransactions ts (weekStart today) (weekEnd today)) = Num 0"
    by (simp add: miscSpent_def reduce_amounts_def)
  from assms(2) have "\<not> jgt (Num 0) (jmul (weeklyAllowance b) (Num (15 / 100)))"
    by (cases "weeklyAllowance b") (simp_all add: jgt_def mult_less_0_iff)
  with misc show ?thesis
    by (simp add: App_calculations_def Let_def chaiIndexExceeded_def)
qed

theorem no_Misc_no_alert_witness:
  "c_miscSpent
     (App_calculations
        [\<lparr>t_id = ''a'', t_amount = Num 900, t_category = Social, t_method = UPI,
          t_date = TimeValue 1793782800000, t_note = []\<rparr>,
         \<lparr>t_id = ''b'', t_amount = Num 5000, t_category = Misc, t_method = Cash,
          t_date = TimeValue 1793145600000, t_note = []\<rparr>]
        (new_Budget None None) (TimeValue 1793615415000)) = Num 0
   \<and> \<not> c_chaiIndexExceeded
     (App_calculations
        [\<lparr>t_id = ''a'', t_amount = Num 900, t_category = Social, t_method = UPI,
          t_date = TimeValue 1793782800000, t_note = []\<rparr>,
         \<lparr>t_id = ''b'', t_amount = Num 5000, t_category = Misc, t_method = Cash,
          t_date = TimeValue 1793145600000, t_note = []\<rparr>]
        (new_Budget None None) (TimeValue 1793615415000))"
  using no_Misc_no_alert
    [of "[\<lparr>t_id = ''a'', t_amount = Num 900, t_category = Social, t_method = UPI,
          t_date = TimeValue 1793782800000, t_note = []\<rparr>,
         \<lparr>t_id = ''b'', t_amount = Num 5000, t_category = Misc, t_method = Cash,
          t_date = TimeValue 1793145600000, t_note = []\<rparr>]"
        "TimeValue 1793615415000" "new_Budget None None"]
  by (simp add: week_example weeklyTransactions_def new_Budget_def)

section \<open>Rounding to a double\<close>

text \<open>
  \<open>fl_eqI\<close> checks a rounding from its exponent and its mantissa; the whole numbers below
  \<open>2 ^ 53\<close> are doubles.
\<close>

lemma powi_bitlen:
  assumes "0 < n"
  shows "2 powi (bitlen n - 1) \<le> (of_int n :: rat)" and "(of_int n :: rat) < 2 powi (bitlen n)"
proof -
  from bitlen_bounds [OF assms]
  have lo: "2 ^ nat (bitlen n - 1) \<le> n" and hi: "n < 2 ^ nat (bitlen n)" by simp_all
  from assms have b: "1 \<le> bitlen n"
    using bitlen_eq_zero_iff [of n] bitlen_nonneg [of n] by linarith
  have "(2::rat) powi (bitlen n - 1) = 2 ^ nat (bitlen n - 1)"
    using b by (simp add: power_int_def)
  also have "\<dots> = of_int (2 ^ nat (bitlen n - 1))" by simp
  also have "\<dots> \<le> of_int n" using lo by (simp only: of_int_le_iff)
  finally show "2 powi (bitlen n - 1) \<le> (of_int n :: rat)" .
  have "(of_int n :: rat) < of_int (2 ^ nat (bitlen n))" using hi by (simp only: of_int_less_iff)
  also have "\<dots> = 2 ^ nat (bitlen n)" by simp
  also have "\<dots> = 2 powi (bitlen n)" using b by (simp add: power_int_def)
  finally show "(of_int n :: rat) < 2 powi (bitlen n)" .
qed

lemma floor_log2_bounds:
  assumes "0 < a"
  shows "2 powi (floor_log2 a) \<le> a" and "a < 2 powi (floor_log2 a + 1)"
proof -
  obtain n d where q: "quotient_of a = (n, d)" by (cases "quotient_of a")
  then have d: "0 < d" by (rule quotient_of_denom_pos)
  from q have a: "a = of_int n / of_int d" by (rule quotient_of_div)
  with assms d have n: "0 < n" by (simp add: zero_less_divide_iff)
  define k where "k = bitlen n - bitlen d"
  have dpos: "(0::rat) < of_int d" using d by simp
  have "2 powi (k - 1) * (of_int d :: rat) < 2 powi (k - 1) * 2 powi (bitlen d)"
    using powi_bitlen(2) [OF d] by (intro mult_strict_left_mono) simp_all
  also have "\<dots> = 2 powi (bitlen n - 1)"
    by (simp add: k_def power_int_add [symmetric])
  also have "\<dots> \<le> of_int n" by (rule powi_bitlen(1) [OF n])
  finally have lo: "2 powi (k - 1) < a"
    using dpos by (simp add: a pos_less_divide_eq)
  have "(of_int n :: rat) < 2 powi (bitlen n)" by (rule powi_bitlen(2) [OF n])
  also have "\<dots> = 2 powi (k + 1) * 2 powi (bitlen d - 1)"
    by (simp add: k_def power_int_add [symmetric])
  also have "\<dots> \<le> 2 powi (k + 1) * of_int d"
    using powi_bitlen(1) [OF d] by (intro mult_left_mono) simp_all
  finally have hi: "a < 2 powi (k + 1)"
    using dpos by (simp add: a pos_divide_less_eq)
  have fl: "floor_log2 a = (if 2 powi k \<le> a then k else k - 1)"
    by (simp add: floor_log2_def q k_def)
  show "2 powi (floor_log2 a) \<le> a"
    using lo by (simp add: fl)
  show "a < 2 powi (floor_log2 a + 1)"
    using hi by (simp add: fl not_le)
qed

lemma powi_exponent_less:
  assumes "(2::rat) powi e \<le> a" and "a < 2 powi (f + 1)"
  shows "e \<le> f"
proof (rule ccontr)
  assume "\<not> e \<le> f"
  then have "f + 1 \<le> e" by simp
  then have "(2::rat) powi (f + 1) \<le> 2 powi e"
    by (intro power_int_increasing) simp_all
  with assms show False by simp
qed

lemma floor_log2_eqI:
  assumes "0 < a" and "2 powi e \<le> a" and "a < 2 powi (e + 1)"
  shows "floor_log2 a = e"
proof (rule antisym)
  show "floor_log2 a \<le> e"
    using floor_log2_bounds(1) [OF assms(1)] assms(3) by (rule powi_exponent_less)
  show "e \<le> floor_log2 a"
    using assms(2) floor_log2_bounds(2) [OF assms(1)] by (rule powi_exponent_less)
qed

lemma round_half_even_nearest:
  assumes "\<bar>x - of_int m\<bar> < 1 / 2"
  shows "round_half_even x = m"
proof -
  from assms have lo: "of_int m - 1 / 2 < x" and hi: "x < of_int m + 1 / 2" by linarith+
  show ?thesis
  proof (cases "of_int m \<le> x")
    case True
    with hi have "\<lfloor>x\<rfloor> = m" by (intro floor_unique) simp_all
    with hi show ?thesis by (simp add: round_half_even_def Let_def)
  next
    case False
    with lo have f: "\<lfloor>x\<rfloor> = m - 1" by (intro floor_unique) simp_all
    from lo have "1 / 2 < x - of_int (m - 1)" by simp
    with f show ?thesis by (simp add: round_half_even_def Let_def)
  qed
qed

lemma round_half_even_tie:
  assumes "x = of_int f + 1 / 2"
  shows "round_half_even x = (if even f then f else f + 1)"
proof -
  from assms have "\<lfloor>x\<rfloor> = f" by (intro floor_unique) simp_all
  with assms show ?thesis by (simp add: round_half_even_def Let_def)
qed

lemma round_half_even_of_int: "round_half_even (of_int m) = m"
  by (rule round_half_even_nearest) simp

lemma below_double_limit:
  assumes "r \<le> 2 powi e" and "e \<le> 1023"
  shows "r < double_limit"
proof -
  from assms(2) have "e < 1024" by simp
  then have "(2::rat) powi e < 2 powi 1024"
    by (intro power_int_strict_increasing) simp_all
  with assms(1) show ?thesis by (simp only: double_limit_def)
qed

lemma fl_eqI:
  assumes "0 < a" and "2 powi e \<le> a" and "a < 2 powi (e + 1)" and "- 1022 \<le> e"
    and "e \<le> 1022"
    and "round_half_even (a / 2 powi (e - 52)) = m"
    and "r = of_int m * 2 powi (e - 52)" and "r \<le> 2 powi (e + 1)"
  shows "fl a = Num r"
proof -
  from assms(1-3) have "floor_log2 a = e" by (rule floor_log2_eqI)
  with assms(4) have e: "max (floor_log2 a) (- 1022) = e" by simp
  from assms(5) have "e + 1 \<le> 1023" by simp
  with assms(8) have "r < double_limit" by (rule below_double_limit)
  then have "\<not> double_limit \<le> r" by simp
  with assms(6,7) have "fl_pos a = Num r"
    unfolding fl_pos_def Let_def e by simp
  with assms(1) show ?thesis by (simp add: fl_def)
qed

lemma fl_of_int:
  assumes "0 \<le> n" and "n < 2 ^ 53"
  shows "fl (of_int n) = Num (of_int n)"
proof (cases "n = 0")
  case True
  then show ?thesis by (simp add: fl_def)
next
  case False
  with assms have pos: "(0::rat) < of_int n" and one: "(1::rat) \<le> of_int n" by simp_all
  define e where "e = floor_log2 (of_int n)"
  have lo: "2 powi e \<le> (of_int n :: rat)" and hi: "(of_int n :: rat) < 2 powi (e + 1)"
    unfolding e_def by (rule floor_log2_bounds [OF pos])+
  have "(of_int n :: rat) < of_int (2 ^ 53)" using assms(2) by (simp only: of_int_less_iff)
  then have "(of_int n :: rat) < 2 powi (52 + 1)" by simp
  with lo have e52: "e \<le> 52" by (rule powi_exponent_less)
  have "(2::rat) powi 0 \<le> of_int n" using one by simp
  from this hi have e0: "0 \<le> e" by (rule powi_exponent_less)
  define j where "j = nat (52 - e)"
  have ulp: "(2::rat) powi (e - 52) = 1 / 2 ^ j"
    using e52 by (simp add: j_def power_int_def inverse_eq_divide power_one_over)
  have rnd: "round_half_even (of_int n / 2 powi (e - 52)) = n * 2 ^ j"
    using round_half_even_of_int [of "n * 2 ^ j"] by (simp add: ulp)
  have val: "(of_int n :: rat) = of_int (n * 2 ^ j) * 2 powi (e - 52)"
    by (simp add: ulp)
  from e0 have e1: "- 1022 \<le> e" by simp
  from e52 have e2: "e \<le> 1022" by simp
  from hi have le: "(of_int n :: rat) \<le> 2 powi (e + 1)" by simp
  show ?thesis
    by (rule fl_eqI [OF pos lo hi e1 e2 rnd val le])
qed

subsection \<open>Sums that do not round\<close>

lemma fl_not_NaN: "\<not> isNaN (fl q)"
  by (simp add: fl_def fl_pos_def Let_def)

lemma dadd_not_NaN: "\<not> isNaN a \<Longrightarrow> isFinite b \<Longrightarrow> \<not> isNaN (dadd a b)"
  by (cases a; cases b) (simp_all add: dadd_def fl_not_NaN)

lemma or_zero_not_NaN: "\<not> isNaN (or_zero m)"
proof (cases m)
  case None
  then show ?thesis by simp
next
  case (Some v)
  then show ?thesis by (cases v) simp_all
qed

lemma or_zero_Some: "\<not> isNaN v \<Longrightarrow> or_zero (Some v) = v"
  by (cases v) simp_all

lemma whole_number_cases:
  assumes "whole_number v"
  obtains n where "0 \<le> n" and "v = Num (of_int n)"
proof -
  from assms obtain r where r: "v = Num r" "0 \<le> r" "r = of_int \<lfloor>r\<rfloor>"
    by (cases v) auto
  then have "0 \<le> \<lfloor>r\<rfloor>" by simp
  with r show thesis using that [of "\<lfloor>r\<rfloor>"] by simp
qed

lemma whole_number_of_int: "0 \<le> n \<Longrightarrow> whole_number (Num (of_int n))"
  by simp

lemma dadd_whole:
  assumes "whole_number a" and "whole_number b" and "decimal_of a + decimal_of b < 2 ^ 53"
  shows "dadd a b = Num (decimal_of a + decimal_of b)" and "whole_number (dadd a b)"
    and "dadd a b = jadd a b"
proof -
  from assms(1) obtain m where m: "0 \<le> m" "a = Num (of_int m)" by (rule whole_number_cases)
  from assms(2) obtain n where n: "0 \<le> n" "b = Num (of_int n)" by (rule whole_number_cases)
  from assms(3) m n have "(of_int (m + n) :: rat) < of_int (2 ^ 53)" by simp
  then have less: "m + n < 2 ^ 53" by (simp only: of_int_less_iff)
  from m n have nonneg: "0 \<le> m + n" by simp
  have "dadd a b = fl (of_int (m + n))"
    by (simp add: dadd_def m n)
  also have "\<dots> = Num (of_int (m + n))"
    using nonneg less by (rule fl_of_int)
  finally have eq: "dadd a b = Num (of_int (m + n))" .
  then show "dadd a b = Num (decimal_of a + decimal_of b)"
    by (simp add: m n)
  from eq nonneg show "whole_number (dadd a b)" by simp
  from eq show "dadd a b = jadd a b" by (simp add: m n)
qed

lemma whole_number_nonneg: "whole_number v \<Longrightarrow> 0 \<le> decimal_of v"
  by (cases v) simp_all

lemma whole_number_finite: "whole_number v \<Longrightarrow> isFinite v"
  by (cases v) simp_all

lemma foldl_dadd_whole:
  assumes "\<forall>x\<in>set xs. whole_number (f x)" and "whole_number acc"
    and "decimal_of acc + sum_list (map (\<lambda>x. decimal_of (f x)) xs) < 2 ^ 53"
  shows "foldl (\<lambda>acc x. dadd acc (f x)) acc xs
    = Num (decimal_of acc + sum_list (map (\<lambda>x. decimal_of (f x)) xs))"
  using assms
proof (induction xs arbitrary: acc)
  case Nil
  then show ?case by (cases acc) simp_all
next
  case (Cons x xs)
  have rest: "0 \<le> sum_list (map (\<lambda>x. decimal_of (f x)) xs)"
    using Cons.prems(1) by (intro sum_list_nonneg) (auto simp: whole_number_nonneg)
  from Cons.prems have wx: "whole_number (f x)" by simp
  from Cons.prems(3) rest have small: "decimal_of acc + decimal_of (f x) < 2 ^ 53" by simp
  note step = dadd_whole [OF Cons.prems(2) wx small]
  have "foldl (\<lambda>acc x. dadd acc (f x)) (dadd acc (f x)) xs
    = Num (decimal_of (dadd acc (f x)) + sum_list (map (\<lambda>x. decimal_of (f x)) xs))"
  proof (rule Cons.IH)
    show "\<forall>x\<in>set xs. whole_number (f x)" using Cons.prems(1) by simp
    show "whole_number (dadd acc (f x))" by (rule step(2))
    show "decimal_of (dadd acc (f x)) + sum_list (map (\<lambda>x. decimal_of (f x)) xs) < 2 ^ 53"
      using Cons.prems(3) by (simp add: step(1) add.assoc)
  qed
  then show ?case by (simp add: step(1) add.assoc)
qed

lemma reduce_amounts_fp_whole:
  assumes "\<forall>t\<in>set ts. whole_number (t_amount t)"
    and "sum_list (map (\<lambda>t. decimal_of (t_amount t)) ts) < 2 ^ 53"
  shows "reduce_amounts_fp ts = Num (sum_list (map (\<lambda>t. decimal_of (t_amount t)) ts))"
  using foldl_dadd_whole [of ts t_amount "Num 0"] assms by (simp add: reduce_amounts_fp_def)

lemma totals_sum_fp_whole:
  assumes "\<forall>p\<in>set cd. whole_number (snd p)"
    and "sum_list (map (\<lambda>p. decimal_of (snd p)) cd) < 2 ^ 53"
  shows "totals_sum_fp cd = Num (sum_list (map (\<lambda>p. decimal_of (snd p)) cd))"
  using foldl_dadd_whole [of cd snd "Num 0"] assms by (simp add: totals_sum_fp_def)

section \<open>Category totals\<close>

text \<open>The loop of \<open>categoryData\<close> in exact arithmetic.\<close>

text \<open>One step of the loop of \<open>categoryData\<close>.\<close>

lemma update_total:
  "sum_list (map (\<lambda>p. decimal_of (snd p)) (AList.update k v al)) =
   sum_list (map (\<lambda>p. decimal_of (snd p)) al)
     - (case map_of al k of None \<Rightarrow> 0 | Some old \<Rightarrow> decimal_of old) + decimal_of v"
  by (induction al) auto

lemma update_finite:
  "isFinite v \<Longrightarrow> \<forall>p\<in>set al. isFinite (snd p) \<Longrightarrow>
   \<forall>p\<in>set (AList.update k v al). isFinite (snd p)"
  by (induction al) auto

lemma or_zero_finite:
  assumes "\<forall>p\<in>set al. isFinite (snd p)"
  shows "or_zero (map_of al k) =
    Num (case map_of al k of None \<Rightarrow> 0 | Some old \<Rightarrow> decimal_of old)"
proof (cases "map_of al k")
  case None
  then show ?thesis by simp
next
  case (Some v)
  then have "(k, v) \<in> set al" by (rule map_of_SomeD)
  with assms have "isFinite v" by force
  then obtain a where "v = Num a" by (cases v) simp_all
  with Some show ?thesis by simp
qed

lemma categoryData_loop:
  assumes "\<forall>t\<in>set ts. isFinite (t_amount t)" and "\<forall>p\<in>set counts. isFinite (snd p)"
  shows "(\<forall>p\<in>set (foldl (\<lambda>counts t.
              AList.update (t_category t)
                (jadd (or_zero (map_of counts (t_category t))) (t_amount t)) counts) counts ts).
            isFinite (snd p))
    \<and> sum_list (map (\<lambda>p. decimal_of (snd p)) (foldl (\<lambda>counts t.
              AList.update (t_category t)
                (jadd (or_zero (map_of counts (t_category t))) (t_amount t)) counts) counts ts))
      = sum_list (map (\<lambda>p. decimal_of (snd p)) counts)
        + sum_list (map (\<lambda>t. decimal_of (t_amount t)) ts)"
  using assms
proof (induction ts arbitrary: counts)
  case Nil
  then show ?case by simp
next
  case (Cons t ts)
  let ?k = "t_category t"
  let ?old = "case map_of counts ?k of None \<Rightarrow> 0 | Some old \<Rightarrow> decimal_of old"
  let ?v = "jadd (or_zero (map_of counts ?k)) (t_amount t)"
  let ?counts = "AList.update ?k ?v counts"
  from Cons.prems have "t_amount t = Num (decimal_of (t_amount t))"
    by (simp add: isFinite_Num)
  with or_zero_finite [OF Cons.prems(2), of ?k]
  have v: "?v = Num (?old + decimal_of (t_amount t))"
    by (metis jadd.simps(1))
  then have fin: "\<forall>p\<in>set ?counts. isFinite (snd p)"
    using Cons.prems(2) by (intro update_finite) simp_all
  have total: "sum_list (map (\<lambda>p. decimal_of (snd p)) ?counts)
      = sum_list (map (\<lambda>p. decimal_of (snd p)) counts) + decimal_of (t_amount t)"
    unfolding update_total v by simp
  from Cons.prems(1) have rest: "\<forall>t\<in>set ts. isFinite (t_amount t)" by simp
  from Cons.IH [OF rest fin] total show ?case
    by (simp add: add.assoc)
qed

lemma update_key_set: "fst ` set (AList.update k v al) = insert k (fst ` set al)"
  by (induction al) auto

text \<open>The loop of \<open>categoryData\<close> in doubles.\<close>

lemma categoryData_fp_keys_loop:
  "fst ` set (foldl (\<lambda>counts t.
              AList.update (t_category t)
                (dadd (or_zero (map_of counts (t_category t))) (t_amount t)) counts) counts ts)
     = fst ` set counts \<union> t_category ` set ts"
proof (induction ts arbitrary: counts)
  case Nil
  then show ?case by simp
next
  case (Cons t ts)
  show ?case
    by (simp add: Cons.IH update_key_set)
qed

lemma categoryData_fp_distinct_loop:
  "distinct (map fst counts) \<Longrightarrow>
   distinct (map fst (foldl (\<lambda>counts t.
              AList.update (t_category t)
                (dadd (or_zero (map_of counts (t_category t))) (t_amount t)) counts) counts ts))"
proof (induction ts arbitrary: counts)
  case Nil
  then show ?case by simp
next
  case (Cons t ts)
  from Cons.prems
  have "distinct (map fst (AList.update (t_category t)
                (dadd (or_zero (map_of counts (t_category t))) (t_amount t)) counts))"
    by (rule AList.distinct_update)
  then show ?case
    by (simp add: Cons.IH)
qed

lemma foldl_dadd_not_NaN:
  "\<not> isNaN acc \<Longrightarrow> \<forall>t\<in>set ts. isFinite (t_amount t) \<Longrightarrow>
   \<not> isNaN (foldl (\<lambda>acc t. dadd acc (t_amount t)) acc ts)"
  by (induction ts arbitrary: acc) (simp_all add: dadd_not_NaN)

lemma total_after_step:
  assumes "isFinite (t_amount t)" and "\<forall>x\<in>set ts. isFinite (t_amount x)"
  shows "total_after (Some (dadd (or_zero m) (t_amount t))) ts = total_after m (t # ts)"
proof -
  have "\<not> isNaN (dadd (or_zero m) (t_amount t))"
    using or_zero_not_NaN assms(1) by (rule dadd_not_NaN)
  then have "or_zero (Some (dadd (or_zero m) (t_amount t))) = dadd (or_zero m) (t_amount t)"
    by (rule or_zero_Some)
  then show ?thesis by (cases ts) simp_all
qed

lemma categoryData_fp_loop:
  assumes "\<forall>t\<in>set ts. isFinite (t_amount t)"
  shows "map_of (foldl (\<lambda>counts t.
              AList.update (t_category t)
                (dadd (or_zero (map_of counts (t_category t))) (t_amount t)) counts) counts ts) c
    = total_after (map_of counts c) (filter (\<lambda>t. t_category t = c) ts)"
  using assms
proof (induction ts arbitrary: counts)
  case Nil
  then show ?case by simp
next
  case (Cons t ts)
  let ?v = "dadd (or_zero (map_of counts (t_category t))) (t_amount t)"
  let ?counts = "AList.update (t_category t) ?v counts"
  from Cons.prems have fin: "isFinite (t_amount t)" and rest: "\<forall>x\<in>set ts. isFinite (t_amount x)"
    by simp_all
  have IH: "map_of (foldl (\<lambda>counts t.
              AList.update (t_category t)
                (dadd (or_zero (map_of counts (t_category t))) (t_amount t)) counts) ?counts ts) c
    = total_after (map_of ?counts c) (filter (\<lambda>t. t_category t = c) ts)"
    using rest by (rule Cons.IH)
  show ?case
  proof (cases "t_category t = c")
    case True
    have "\<forall>x\<in>set (filter (\<lambda>t. t_category t = c) ts). isFinite (t_amount x)"
      using rest by simp
    with fin have "total_after (Some (dadd (or_zero (map_of counts c)) (t_amount t)))
        (filter (\<lambda>t. t_category t = c) ts)
      = total_after (map_of counts c) (t # filter (\<lambda>t. t_category t = c) ts)"
      by (rule total_after_step)
    with True IH show ?thesis
      by (simp add: update_conv')
  next
    case False
    with IH show ?thesis
      by (simp add: update_conv')
  qed
qed

lemma categoryData_fp_totals:
  assumes "\<forall>t\<in>set wts. isFinite (t_amount t)"
  shows "map_of (categoryData_fp wts) c =
    (if c \<in> t_category ` set wts
     then Some (reduce_amounts_fp (filter (\<lambda>t. t_category t = c) wts)) else None)"
proof (cases "filter (\<lambda>t. t_category t = c) wts")
  case Nil
  then have "c \<notin> t_category ` set wts"
    by (auto simp: filter_empty_conv)
  with Nil categoryData_fp_loop [OF assms, of "[]" c] show ?thesis
    by (simp add: categoryData_fp_def)
next
  case (Cons t ts)
  then have "t \<in> set (filter (\<lambda>t. t_category t = c) wts)" by simp
  then have "c \<in> t_category ` set wts" by auto
  with Cons categoryData_fp_loop [OF assms, of "[]" c] show ?thesis
    by (simp add: categoryData_fp_def reduce_amounts_fp_def)
qed

lemma update_whole:
  "whole_number v \<Longrightarrow> \<forall>p\<in>set al. whole_number (snd p) \<Longrightarrow>
   \<forall>p\<in>set (AList.update k v al). whole_number (snd p)"
  by (induction al) auto

lemma entry_le_total:
  assumes "\<forall>p\<in>set al. whole_number (snd p)"
  shows "(case map_of al k of None \<Rightarrow> 0 | Some old \<Rightarrow> decimal_of old)
    \<le> sum_list (map (\<lambda>p. decimal_of (snd p)) al)"
  using assms
proof (induction al)
  case Nil
  then show ?case by simp
next
  case (Cons p al)
  have rest: "0 \<le> sum_list (map (\<lambda>p. decimal_of (snd p)) al)"
    using Cons.prems by (intro sum_list_nonneg) (auto simp: whole_number_nonneg)
  from Cons.prems have head: "0 \<le> decimal_of (snd p)" by (simp add: whole_number_nonneg)
  show ?case
  proof (cases "fst p = k")
    case True
    with rest show ?thesis by simp
  next
    case False
    with Cons head show ?thesis by simp
  qed
qed

lemma or_zero_whole:
  assumes "\<forall>p\<in>set al. whole_number (snd p)"
  shows "whole_number (or_zero (map_of al k))"
proof (cases "map_of al k")
  case None
  then show ?thesis by simp
next
  case (Some v)
  then have "(k, v) \<in> set al" by (rule map_of_SomeD)
  with assms have "whole_number v" by force
  then obtain n where "0 \<le> n" "v = Num (of_int n)" by (rule whole_number_cases)
  with Some show ?thesis by simp
qed

lemma categoryData_fp_exact_loop:
  assumes "\<forall>t\<in>set ts. whole_number (t_amount t)" and "\<forall>p\<in>set counts. whole_number (snd p)"
    and "sum_list (map (\<lambda>p. decimal_of (snd p)) counts)
        + sum_list (map (\<lambda>t. decimal_of (t_amount t)) ts) < 2 ^ 53"
  shows "foldl (\<lambda>counts t.
              AList.update (t_category t)
                (dadd (or_zero (map_of counts (t_category t))) (t_amount t)) counts) counts ts
    = foldl (\<lambda>counts t.
              AList.update (t_category t)
                (jadd (or_zero (map_of counts (t_category t))) (t_amount t)) counts) counts ts
    \<and> (\<forall>p\<in>set (foldl (\<lambda>counts t.
              AList.update (t_category t)
                (jadd (or_zero (map_of counts (t_category t))) (t_amount t)) counts) counts ts).
          whole_number (snd p))"
  using assms
proof (induction ts arbitrary: counts)
  case Nil
  then show ?case by simp
next
  case (Cons t ts)
  let ?k = "t_category t"
  let ?old = "case map_of counts ?k of None \<Rightarrow> 0 | Some old \<Rightarrow> decimal_of old"
  let ?v = "jadd (or_zero (map_of counts ?k)) (t_amount t)"
  let ?counts = "AList.update ?k ?v counts"
  from Cons.prems(1) have wt: "whole_number (t_amount t)" and wts: "\<forall>x\<in>set ts. whole_number (t_amount x)"
    by simp_all
  have fin: "\<forall>p\<in>set counts. isFinite (snd p)"
    using Cons.prems(2) by (auto simp: whole_number_finite)
  have old: "or_zero (map_of counts ?k) = Num ?old"
    using fin by (rule or_zero_finite)
  have rest: "0 \<le> sum_list (map (\<lambda>t. decimal_of (t_amount t)) ts)"
    using wts by (intro sum_list_nonneg) (auto simp: whole_number_nonneg)
  have "?old + decimal_of (t_amount t) < 2 ^ 53"
    using entry_le_total [OF Cons.prems(2), of ?k] Cons.prems(3) rest by simp
  then have small: "decimal_of (or_zero (map_of counts ?k)) + decimal_of (t_amount t) < 2 ^ 53"
    by (simp add: old)
  note step = dadd_whole [OF or_zero_whole [OF Cons.prems(2)] wt small]
  have wc: "\<forall>p\<in>set ?counts. whole_number (snd p)"
    using step(2) Cons.prems(2) unfolding step(3) by (rule update_whole)
  have total: "sum_list (map (\<lambda>p. decimal_of (snd p)) ?counts)
      = sum_list (map (\<lambda>p. decimal_of (snd p)) counts) + decimal_of (t_amount t)"
    using step(1) unfolding step(3) update_total by (simp add: old)
  have bound: "sum_list (map (\<lambda>p. decimal_of (snd p)) ?counts)
        + sum_list (map (\<lambda>t. decimal_of (t_amount t)) ts) < 2 ^ 53"
    using Cons.prems(3) by (simp add: total add.assoc)
  from Cons.IH [OF wts wc bound] show ?case
    by (simp add: step(3))
qed

lemma categoryData_fp_whole:
  assumes "\<forall>t\<in>set wts. whole_number (t_amount t)"
    and "sum_list (map (\<lambda>t. decimal_of (t_amount t)) wts) < 2 ^ 53"
  shows "categoryData_fp wts = categoryData wts"
    and "totals_sum_fp (categoryData_fp wts) = weeklySpent_fp wts"
proof -
  from categoryData_fp_exact_loop [OF assms(1), of "[]"] assms(2)
  have same: "categoryData_fp wts = categoryData wts"
    and wc: "\<forall>p\<in>set (categoryData wts). whole_number (snd p)"
    by (simp_all add: categoryData_fp_def categoryData_def)
  from same show "categoryData_fp wts = categoryData wts" .
  have fin: "\<forall>t\<in>set wts. isFinite (t_amount t)"
    using assms(1) by (auto simp: whole_number_finite)
  from categoryData_loop [OF fin, of "[]"]
  have total: "sum_list (map (\<lambda>p. decimal_of (snd p)) (categoryData wts))
      = sum_list (map (\<lambda>t. decimal_of (t_amount t)) wts)"
    by (simp add: categoryData_def)
  have "totals_sum_fp (categoryData wts)
    = Num (sum_list (map (\<lambda>p. decimal_of (snd p)) (categoryData wts)))"
    using wc assms(2) by (intro totals_sum_fp_whole) (simp_all add: total)
  also have "\<dots> = weeklySpent_fp wts"
    by (simp add: total weeklySpent_fp_def reduce_amounts_fp_whole [OF assms])
  finally show "totals_sum_fp (categoryData_fp wts) = weeklySpent_fp wts"
    by (simp add: same)
qed

text \<open>
  Claim C7. For every list and every window, in doubles: the categories of
  \<open>categoryData\<close> over the window are exactly the categories of the transactions in the
  window, each once, so a category with no transaction in the window is absent and not
  present with the value zero. When the amounts in the window are finite, the total of a
  category is the sum of the amounts of its transactions in the window, added in the order
  of the list. When the amounts are whole numbers, zero or more, with a sum below \<open>2 ^ 53\<close>,
  no addition rounds and the totals add up to the windowed sum.
\<close>

theorem categoryData_double_totals:
  "fst ` set (categoryData_fp (weeklyTransactions ts ws we))
      = t_category ` set (weeklyTransactions ts ws we)
   \<and> distinct (map fst (categoryData_fp (weeklyTransactions ts ws we)))
   \<and> ((\<forall>t\<in>set (weeklyTransactions ts ws we). isFinite (t_amount t)) \<longrightarrow>
        (\<forall>c. map_of (categoryData_fp (weeklyTransactions ts ws we)) c =
          (if c \<in> t_category ` set (weeklyTransactions ts ws we)
           then Some (weeklySpent_fp
                        (filter (\<lambda>t. t_category t = c) (weeklyTransactions ts ws we)))
           else None)))
   \<and> ((\<forall>t\<in>set (weeklyTransactions ts ws we). whole_number (t_amount t))
        \<and> sum_list (map (\<lambda>t. decimal_of (t_amount t)) (weeklyTransactions ts ws we)) < 2 ^ 53 \<longrightarrow>
        totals_sum_fp (categoryData_fp (weeklyTransactions ts ws we))
          = weeklySpent_fp (weeklyTransactions ts ws we))"
proof -
  let ?wts = "weeklyTransactions ts ws we"
  from categoryData_fp_keys_loop [of "[]" ?wts]
  have keys: "fst ` set (categoryData_fp ?wts) = t_category ` set ?wts"
    by (simp add: categoryData_fp_def)
  from categoryData_fp_distinct_loop [of "[]" ?wts]
  have once: "distinct (map fst (categoryData_fp ?wts))"
    by (simp add: categoryData_fp_def)
  have each: "(\<forall>t\<in>set ?wts. isFinite (t_amount t)) \<longrightarrow>
        (\<forall>c. map_of (categoryData_fp ?wts) c =
          (if c \<in> t_category ` set ?wts
           then Some (weeklySpent_fp (filter (\<lambda>t. t_category t = c) ?wts)) else None))"
  proof (intro impI allI)
    fix c
    assume "\<forall>t\<in>set ?wts. isFinite (t_amount t)"
    then show "map_of (categoryData_fp ?wts) c =
          (if c \<in> t_category ` set ?wts
           then Some (weeklySpent_fp (filter (\<lambda>t. t_category t = c) ?wts)) else None)"
      unfolding weeklySpent_fp_def by (rule categoryData_fp_totals)
  qed
  have total: "(\<forall>t\<in>set ?wts. whole_number (t_amount t))
        \<and> sum_list (map (\<lambda>t. decimal_of (t_amount t)) ?wts) < 2 ^ 53 \<longrightarrow>
        totals_sum_fp (categoryData_fp ?wts) = weeklySpent_fp ?wts"
  proof
    assume a: "(\<forall>t\<in>set ?wts. whole_number (t_amount t))
        \<and> sum_list (map (\<lambda>t. decimal_of (t_amount t)) ?wts) < 2 ^ 53"
    from a have w: "\<forall>t\<in>set ?wts. whole_number (t_amount t)" ..
    from a have s: "sum_list (map (\<lambda>t. decimal_of (t_amount t)) ?wts) < 2 ^ 53" ..
    from w s show "totals_sum_fp (categoryData_fp ?wts) = weeklySpent_fp ?wts"
      by (rule categoryData_fp_whole(2))
  qed
  from keys once each total show ?thesis by (intro conjI)
qed

theorem categoryData_double_totals_witness:
  "categoryData_fp
     (weeklyTransactions
        [\<lparr>t_id = ''a'', t_amount = Num 100, t_category = Misc, t_method = UPI,
          t_date = TimeValue 1793782800000, t_note = []\<rparr>,
         \<lparr>t_id = ''b'', t_amount = Num 50, t_category = Social, t_method = Cash,
          t_date = TimeValue 1793615415000, t_note = []\<rparr>,
         \<lparr>t_id = ''c'', t_amount = Num 25, t_category = Misc, t_method = Card,
          t_date = TimeValue 1793901600000, t_note = []\<rparr>,
         \<lparr>t_id = ''d'', t_amount = Num 7000, t_category = PG_Rent, t_method = UPI,
          t_date = TimeValue 1797336000000, t_note = []\<rparr>]
        (TimeValue 1793577600000) (TimeValue 1794182399999))
     = [(Misc, Num 125), (Social, Num 50)]
   \<and> totals_sum_fp [(Misc, Num 125), (Social, Num 50)] = Num 175
   \<and> weeklySpent_fp
     (weeklyTransactions
        [\<lparr>t_id = ''a'', t_amount = Num 100, t_category = Misc, t_method = UPI,
          t_date = TimeValue 1793782800000, t_note = []\<rparr>,
         \<lparr>t_id = ''b'', t_amount = Num 50, t_category = Social, t_method = Cash,
          t_date = TimeValue 1793615415000, t_note = []\<rparr>,
         \<lparr>t_id = ''c'', t_amount = Num 25, t_category = Misc, t_method = Card,
          t_date = TimeValue 1793901600000, t_note = []\<rparr>,
         \<lparr>t_id = ''d'', t_amount = Num 7000, t_category = PG_Rent, t_method = UPI,
          t_date = TimeValue 1797336000000, t_note = []\<rparr>]
        (TimeValue 1793577600000) (TimeValue 1794182399999))
     = Num 175"
proof -
  let ?ts = "[\<lparr>t_id = ''a'', t_amount = Num 100, t_category = Misc, t_method = UPI,
          t_date = TimeValue 1793782800000, t_note = []\<rparr>,
         \<lparr>t_id = ''b'', t_amount = Num 50, t_category = Social, t_method = Cash,
          t_date = TimeValue 1793615415000, t_note = []\<rparr>,
         \<lparr>t_id = ''c'', t_amount = Num 25, t_category = Misc, t_method = Card,
          t_date = TimeValue 1793901600000, t_note = []\<rparr>,
         \<lparr>t_id = ''d'', t_amount = Num 7000, t_category = PG_Rent, t_method = UPI,
          t_date = TimeValue 1797336000000, t_note = []\<rparr>]"
  let ?wts = "weeklyTransactions ?ts (TimeValue 1793577600000) (TimeValue 1794182399999)"
  have w: "\<forall>t\<in>set ?wts. whole_number (t_amount t)"
    by (simp add: weeklyTransactions_def)
  have s: "sum_list (map (\<lambda>t. decimal_of (t_amount t)) ?wts) < 2 ^ 53"
    by (simp add: weeklyTransactions_def)
  from categoryData_double_totals [of ?ts "TimeValue 1793577600000" "TimeValue 1794182399999"] w s
  have total: "totals_sum_fp (categoryData_fp ?wts) = weeklySpent_fp ?wts"
    by blast
  have data: "categoryData_fp ?wts = [(Misc, Num 125), (Social, Num 50)]"
    unfolding categoryData_fp_whole(1) [OF w s]
    by (simp add: weeklyTransactions_def categoryData_def)
  have spent: "weeklySpent_fp ?wts = Num 175"
    unfolding weeklySpent_fp_def reduce_amounts_fp_whole [OF w s]
    by (simp add: weeklyTransactions_def)
  from total data spent show ?thesis by simp
qed

text \<open>
  The roundings of an example: the amounts 0.1, 0.2 and 2.2, the steps of the windowed sum
  and the steps of the totals.
\<close>

lemma fl_tenth: "fl (1 / 10) = Num (3602879701896397 / 36028797018963968)"
proof (rule fl_eqI [where e = "- 4" and m = 7205759403792794])
  show "round_half_even ((1 / 10) / 2 powi (- 4 - 52)) = 7205759403792794"
    by (rule round_half_even_nearest) simp
qed simp_all

lemma fl_fifth: "fl (1 / 5) = Num (3602879701896397 / 18014398509481984)"
proof (rule fl_eqI [where e = "- 3" and m = 7205759403792794])
  show "round_half_even ((1 / 5) / 2 powi (- 3 - 52)) = 7205759403792794"
    by (rule round_half_even_nearest) simp
qed simp_all

lemma fl_2_2: "fl (11 / 5) = Num (2476979795053773 / 1125899906842624)"
proof (rule fl_eqI [where e = "1" and m = 4953959590107546])
  show "round_half_even ((11 / 5) / 2 powi (1 - 52)) = 4953959590107546"
    by (rule round_half_even_nearest) simp
qed simp_all

lemma dadd_0_tenth: "dadd (Num (0)) (Num (3602879701896397 / 36028797018963968)) = Num (3602879701896397 / 36028797018963968)"
proof -
  have "fl (0 + (3602879701896397 / 36028797018963968)) = Num (3602879701896397 / 36028797018963968)"
  proof (rule fl_eqI [where e = "- 4" and m = 7205759403792794])
    show "round_half_even ((0 + (3602879701896397 / 36028797018963968)) / 2 powi (- 4 - 52)) = 7205759403792794"
      by (rule round_half_even_nearest) simp
  qed simp_all
  then show ?thesis by (simp only: dadd_def jadd.simps round_result.simps)
qed

lemma dadd_tenth_fifth: "dadd (Num (3602879701896397 / 36028797018963968)) (Num (3602879701896397 / 18014398509481984)) = Num (1351079888211149 / 4503599627370496)"
proof -
  have "fl ((3602879701896397 / 36028797018963968) + (3602879701896397 / 18014398509481984)) = Num (1351079888211149 / 4503599627370496)"
  proof (rule fl_eqI [where e = "- 2" and m = 5404319552844596])
    show "round_half_even (((3602879701896397 / 36028797018963968) + (3602879701896397 / 18014398509481984)) / 2 powi (- 2 - 52)) = 5404319552844596"
      using round_half_even_tie [of "((3602879701896397 / 36028797018963968) + (3602879701896397 / 18014398509481984)) / 2 powi (- 2 - 52)" 5404319552844595] by simp
  qed simp_all
  then show ?thesis by (simp only: dadd_def jadd.simps round_result.simps)
qed

lemma dadd_sum_2_2: "dadd (Num (1351079888211149 / 4503599627370496)) (Num (2476979795053773 / 1125899906842624)) = Num (5 / 2)"
proof -
  have "fl ((1351079888211149 / 4503599627370496) + (2476979795053773 / 1125899906842624)) = Num (5 / 2)"
  proof (rule fl_eqI [where e = "1" and m = 5629499534213120])
    show "round_half_even (((1351079888211149 / 4503599627370496) + (2476979795053773 / 1125899906842624)) / 2 powi (1 - 52)) = 5629499534213120"
      using round_half_even_tie [of "((1351079888211149 / 4503599627370496) + (2476979795053773 / 1125899906842624)) / 2 powi (1 - 52)" 5629499534213120] by simp
  qed simp_all
  then show ?thesis by (simp only: dadd_def jadd.simps round_result.simps)
qed

lemma dadd_tenth_2_2: "dadd (Num (3602879701896397 / 36028797018963968)) (Num (2476979795053773 / 1125899906842624)) = Num (5179139571476071 / 2251799813685248)"
proof -
  have "fl ((3602879701896397 / 36028797018963968) + (2476979795053773 / 1125899906842624)) = Num (5179139571476071 / 2251799813685248)"
  proof (rule fl_eqI [where e = "1" and m = 5179139571476071])
    show "round_half_even (((3602879701896397 / 36028797018963968) + (2476979795053773 / 1125899906842624)) / 2 powi (1 - 52)) = 5179139571476071"
      by (rule round_half_even_nearest) simp
  qed simp_all
  then show ?thesis by (simp only: dadd_def jadd.simps round_result.simps)
qed

lemma dadd_0_fifth: "dadd (Num (0)) (Num (3602879701896397 / 18014398509481984)) = Num (3602879701896397 / 18014398509481984)"
proof -
  have "fl (0 + (3602879701896397 / 18014398509481984)) = Num (3602879701896397 / 18014398509481984)"
  proof (rule fl_eqI [where e = "- 3" and m = 7205759403792794])
    show "round_half_even ((0 + (3602879701896397 / 18014398509481984)) / 2 powi (- 3 - 52)) = 7205759403792794"
      by (rule round_half_even_nearest) simp
  qed simp_all
  then show ?thesis by (simp only: dadd_def jadd.simps round_result.simps)
qed

lemma dadd_0_total: "dadd (Num (0)) (Num (5179139571476071 / 2251799813685248)) = Num (5179139571476071 / 2251799813685248)"
proof -
  have "fl (0 + (5179139571476071 / 2251799813685248)) = Num (5179139571476071 / 2251799813685248)"
  proof (rule fl_eqI [where e = "1" and m = 5179139571476071])
    show "round_half_even ((0 + (5179139571476071 / 2251799813685248)) / 2 powi (1 - 52)) = 5179139571476071"
      by (rule round_half_even_nearest) simp
  qed simp_all
  then show ?thesis by (simp only: dadd_def jadd.simps round_result.simps)
qed

lemma dadd_total_fifth: "dadd (Num (5179139571476071 / 2251799813685248)) (Num (3602879701896397 / 18014398509481984)) = Num (5629499534213121 / 2251799813685248)"
proof -
  have "fl ((5179139571476071 / 2251799813685248) + (3602879701896397 / 18014398509481984)) = Num (5629499534213121 / 2251799813685248)"
  proof (rule fl_eqI [where e = "1" and m = 5629499534213121])
    show "round_half_even (((5179139571476071 / 2251799813685248) + (3602879701896397 / 18014398509481984)) / 2 powi (1 - 52)) = 5629499534213121"
      by (rule round_half_even_nearest) simp
  qed simp_all
  then show ?thesis by (simp only: dadd_def jadd.simps round_result.simps)
qed

lemma parseFloat_decimals:
  "parseFloat ''0.1'' = Num (1 / 10)"
  "parseFloat ''0.2'' = Num (1 / 5)"
  "parseFloat ''2.2'' = Num (11 / 5)"
  by code_simp+

text \<open>
  As claim C7 is written, the totals add up to the windowed sum for every list. With the
  amounts 0.1 and 2.2 for food and 0.2 for Misc in between, the windowed sum is
  \<open>(0.1 + 0.2) + 2.2\<close>, which is 2.5, and the totals are \<open>0.1 + 2.2\<close>, which is
  2.3000000000000003, and 0.2: they add up to 2.5000000000000004.
\<close>

theorem categoryData_totals_counterexample:
  "weeklySpent_fp
     (weeklyTransactions
        [\<lparr>t_id = ''a'', t_amount = parseFloat_fp ''0.1'', t_category = Mess_Food, t_method = UPI,
          t_date = TimeValue 1793782800000, t_note = []\<rparr>,
         \<lparr>t_id = ''b'', t_amount = parseFloat_fp ''0.2'', t_category = Misc, t_method = Cash,
          t_date = TimeValue 1793615415000, t_note = []\<rparr>,
         \<lparr>t_id = ''c'', t_amount = parseFloat_fp ''2.2'', t_category = Mess_Food, t_method = Card,
          t_date = TimeValue 1793901600000, t_note = []\<rparr>]
        (TimeValue 1793577600000) (TimeValue 1794182399999))
     = Num (5 / 2)
   \<and> categoryData_fp
     (weeklyTransactions
        [\<lparr>t_id = ''a'', t_amount = parseFloat_fp ''0.1'', t_category = Mess_Food, t_method = UPI,
          t_date = TimeValue 1793782800000, t_note = []\<rparr>,
         \<lparr>t_id = ''b'', t_amount = parseFloat_fp ''0.2'', t_category = Misc, t_method = Cash,
          t_date = TimeValue 1793615415000, t_note = []\<rparr>,
         \<lparr>t_id = ''c'', t_amount = parseFloat_fp ''2.2'', t_category = Mess_Food, t_method = Card,
          t_date = TimeValue 1793901600000, t_note = []\<rparr>]
        (TimeValue 1793577600000) (TimeValue 1794182399999))
     = [(Mess_Food, Num (5179139571476071 / 2251799813685248)),
        (Misc, Num (3602879701896397 / 18014398509481984))]
   \<and> totals_sum_fp
       [(Mess_Food, Num (5179139571476071 / 2251799813685248)),
        (Misc, Num (3602879701896397 / 18014398509481984))]
     = Num (5629499534213121 / 2251799813685248)
   \<and> Num (5629499534213121 / 2251799813685248) \<noteq> Num (5 / 2)"
  by (simp add: weeklyTransactions_def weeklySpent_fp_def reduce_amounts_fp_def
      categoryData_fp_def totals_sum_fp_def parseFloat_fp_def parseFloat_decimals
      fl_tenth fl_fifth fl_2_2 dadd_0_tenth dadd_tenth_fifth dadd_sum_2_2 dadd_tenth_2_2
      dadd_0_fifth dadd_0_total dadd_total_fifth)

text \<open>
  An amount that is not finite: \<open>counts[c] || 0\<close> restarts a total that is \<open>NaN\<close>, where
  the windowed sum stays \<open>NaN\<close>.
\<close>

lemma categoryData_fp_not_finite:
  "categoryData_fp
     [\<lparr>t_id = ''a'', t_amount = PosInf, t_category = Misc, t_method = UPI,
       t_date = TimeValue 1793782800000, t_note = []\<rparr>,
      \<lparr>t_id = ''b'', t_amount = NegInf, t_category = Misc, t_method = UPI,
       t_date = TimeValue 1793782800000, t_note = []\<rparr>,
      \<lparr>t_id = ''c'', t_amount = Num 4, t_category = Misc, t_method = UPI,
       t_date = TimeValue 1793782800000, t_note = []\<rparr>] = [(Misc, Num 4)]"
  "weeklySpent_fp
     [\<lparr>t_id = ''a'', t_amount = PosInf, t_category = Misc, t_method = UPI,
       t_date = TimeValue 1793782800000, t_note = []\<rparr>,
      \<lparr>t_id = ''b'', t_amount = NegInf, t_category = Misc, t_method = UPI,
       t_date = TimeValue 1793782800000, t_note = []\<rparr>,
      \<lparr>t_id = ''c'', t_amount = Num 4, t_category = Misc, t_method = UPI,
       t_date = TimeValue 1793782800000, t_note = []\<rparr>] = NaN"
  using fl_of_int [of 4]
  by (simp_all add: categoryData_fp_def weeklySpent_fp_def reduce_amounts_fp_def dadd_def)

section \<open>The Chai-Index alert\<close>













section \<open>The monthly total\<close>

lemma month_example:
  "startOfMonth (TimeValue 1793615415000) = TimeValue 1793491200000"
  "endOfMonth (TimeValue 1793615415000) = TimeValue 1796083199999"
  by code_simp+

text \<open>
  What the filter does get right: when no transaction is dated after the end of the
  month, the total is the sum over the transactions of the month.
\<close>

lemma monthlySpent_within_month:
  assumes "\<forall>t\<in>set ts. jle (valueOf (t_date t)) (valueOf (endOfMonth today))"
  shows "monthlySpent ts today =
    reduce_amounts
      (filter (\<lambda>t. jge (valueOf (t_date t)) (valueOf (startOfMonth today))
                 \<and> jle (valueOf (t_date t)) (valueOf (endOfMonth today))) ts)"
proof -
  have "filter (\<lambda>t. jge (valueOf (t_date t)) (valueOf (startOfMonth today))) ts
    = filter (\<lambda>t. jge (valueOf (t_date t)) (valueOf (startOfMonth today))
                 \<and> jle (valueOf (t_date t)) (valueOf (endOfMonth today))) ts"
    using assms by (intro filter_cong) auto
  then show ?thesis
    by (simp add: monthlySpent_def)
qed

text \<open>
  Claim C4 asks that a transaction dated after the end of the current month stay out of
  the monthly total. The filter of the code has the lower bound \<open>startOfMonth(today)\<close>
  only (the weekly filter has both bounds, and \<open>endOfMonth\<close> is imported and never
  called). On 2 November 2026 a transaction of 100 dated 15 December 2026, after the end
  of November, is counted: the total is 100 where the claim has 0.
\<close>

theorem monthlySpent_counts_later_months:
  "jgt (valueOf (TimeValue 1797336000000)) (valueOf (endOfMonth (TimeValue 1793615415000)))
   \<and> monthlySpent
       [\<lparr>t_id = ''a'', t_amount = Num 100, t_category = Misc, t_method = UPI,
         t_date = TimeValue 1797336000000, t_note = []\<rparr>]
       (TimeValue 1793615415000)
     = Num 100"
  by (simp add: monthlySpent_def month_example reduce_amounts_def
      del: startOfMonth.simps endOfMonth.simps)

end
